theory Spec2Isabelle
  imports Main "HOL-Library.Multiset"
begin

section \<open>Values, function values and calls\<close>

text \<open>
  Every participant of the protocol is a JavaScript function called as \<open>f(t, d)\<close>
  with a numeric tag \<open>t\<close> (0 = START, 1 = DATA, 2 = END) and a payload \<open>d\<close>.
  A function value is either a function of the surroundings (a source, a sink or a
  talkback handed to the library, \<open>Ext\<close>) or one of the closures the library creates.
  \<open>Sentinel\<close> is the module-private object \<open>EMPTY\<close> of combine, which is
  identical (\<open>===\<close>) to nothing but itself.
\<close>

datatype fn =
    Ext nat
  | MergeTalkback | MergeCb nat
  | CombineTalkback | CombineCb nat
  | SampleTalkback | SampleLcb | SamplePcb
  | ScanCb nat
  | FlattenTalkback | FlattenOuterCb | FlattenInnerCb
  | ConcatTalkback | ConcatCb
  | ShareTalkback fn | ShareCb fn
  | SubjectTalkback fn
  | ForEachCb | Operation
  | FromIterSource | FromIterTalkback | FromIterLoop | FromIterWhile
  | TakeSource | TakeTalkback | TakeCb
  | CounterSource | CounterTalkback
  | Noop

datatype val = Undefined | Num int | Fn fn | Arr "val list" | Sentinel

text \<open>An outgoing call \<open>f(t, d)\<close>; a missing second argument is \<open>Undefined\<close>.\<close>

datatype call = Call fn nat val

text \<open>JavaScript truthiness, as used by \<open>x && x(t)\<close> and \<open>if (x)\<close>.\<close>

fun truthy :: "val \<Rightarrow> bool" where
  "truthy Undefined = False"
| "truthy (Num n) = (n \<noteq> 0)"
| "truthy (Fn f) = True"
| "truthy (Arr vs) = True"
| "truthy Sentinel = True"

text \<open>\<open>typeof x === 'function'\<close>.\<close>

fun is_fn :: "val \<Rightarrow> bool" where
  "is_fn (Fn f) = True"
| "is_fn v = False"

text \<open>
  Calling the content of a variable: a function value is called, anything else
  raises a TypeError (\<open>None\<close>).
\<close>

fun invoke :: "val \<Rightarrow> nat \<Rightarrow> val \<Rightarrow> call list option" where
  "invoke (Fn f) t d = Some [Call f t d]"
| "invoke v t d = None"

text \<open>
  A closure of the library is a function from its arguments and the variables it closes
  over to the new values of these variables and the calls it makes, in order; \<open>None\<close>
  is an exception thrown. The calls go to functions of the surroundings, which may call
  back into the library before they return; such a call is another step of the run.
  The callbacks of merge, combine, concat and scan assign first and make at most one
  call, the last thing they do, so the order of the steps is the order of the calls
  whatever is nested in what. A closure that makes several calls (a talkback that
  goes through all sources, the loop of share) is listed with the calls it makes when
  nothing changes its variables in between. forEach, fromIter, take and makeSubject,
  where the nesting decides, are modelled with the nested calls executed.
\<close>

type_synonym 's result = "('s \<times> call list) option"

definition seq :: "call list option \<Rightarrow> call list option \<Rightarrow> call list option" where
  "seq a b = (case a of None \<Rightarrow> None | Some xs \<Rightarrow> (case b of None \<Rightarrow> None | Some ys \<Rightarrow> Some (xs @ ys)))"

definition emit :: "'s \<Rightarrow> call list option \<Rightarrow> 's result" where
  "emit s cs = (case cs of None \<Rightarrow> None | Some xs \<Rightarrow> Some (s, xs))"

fun is_start :: "fn \<Rightarrow> call \<Rightarrow> bool" where
  "is_start k (Call f t d) = (f = k \<and> t = 0)"

fun is_data :: "fn \<Rightarrow> call \<Rightarrow> bool" where
  "is_data k (Call f t d) = (f = k \<and> t = 1)"

fun is_end :: "fn \<Rightarrow> call \<Rightarrow> bool" where
  "is_end k (Call f t d) = (f = k \<and> t = 2)"

section \<open>merge\<close>

record merge_state =
  sourceTalkbacks :: "val list"
  startCount :: nat
  endCount :: nat

text \<open>
  \<open>merge(...sources)(start, sink)\<close>: the variables of the channel and the calls
  \<open>sources[i](0, cb)\<close> of the loop. A start tag other than 0 creates nothing.
\<close>

definition merge_init :: "fn list \<Rightarrow> merge_state" where
  "merge_init sources = \<lparr> sourceTalkbacks = replicate (length sources) Undefined,
     startCount = 0, endCount = 0 \<rparr>"

definition merge :: "fn list \<Rightarrow> nat \<Rightarrow> fn \<Rightarrow> (merge_state \<times> call list) option" where
  "merge sources start sink =
     (if start \<noteq> 0 then None
      else Some (merge_init sources,
                 map (\<lambda>i. Call (sources ! i) 0 (Fn (MergeCb i))) [0 ..< length sources]))"

text \<open>The talkback handed downstream: \<open>sourceTalkbacks[i] && sourceTalkbacks[i](t)\<close>.\<close>

fun merge_broadcast :: "val list \<Rightarrow> nat \<Rightarrow> call list option" where
  "merge_broadcast [] t = Some []"
| "merge_broadcast (v # vs) t =
     seq (if truthy v then invoke v t Undefined else Some []) (merge_broadcast vs t)"

definition merge_talkback :: "nat \<Rightarrow> merge_state \<Rightarrow> merge_state result" where
  "merge_talkback t s =
     (if t = 0 then Some (s, []) else emit s (merge_broadcast (sourceTalkbacks s) t))"

text \<open>The callback given to \<open>sources[i]\<close>.\<close>

definition merge_cb :: "fn list \<Rightarrow> fn \<Rightarrow> nat \<Rightarrow> nat \<Rightarrow> val \<Rightarrow> merge_state \<Rightarrow> merge_state result" where
  "merge_cb sources sink i t d s =
     (if t = 0 then
        (let s1 = s\<lparr> sourceTalkbacks := (sourceTalkbacks s)[i := d],
                     startCount := startCount s + 1 \<rparr>
         in Some (s1, if startCount s1 = 1 then [Call sink 0 (Fn MergeTalkback)] else []))
      else if t = 2 then
        (let s1 = s\<lparr> sourceTalkbacks := (sourceTalkbacks s)[i := Undefined],
                     endCount := endCount s + 1 \<rparr>
         in Some (s1, if endCount s1 = length sources then [Call sink 2 Undefined] else []))
      else Some (s, [Call sink t d]))"

text \<open>
  What can reach a channel of merge: a call of one of the closures it has created. The
  callback \<open>MergeCb i\<close> exists only for \<open>i < length sources\<close>, and the talkback is a
  closure of the channel whether or not the sink has been given it.
\<close>

datatype merge_event = MTalkback nat | MCb nat nat val

fun merge_step :: "fn list \<Rightarrow> fn \<Rightarrow> merge_event \<Rightarrow> merge_state \<Rightarrow> merge_state result" where
  "merge_step sources sink (MTalkback t) s = merge_talkback t s"
| "merge_step sources sink (MCb i t d) s =
     (if i < length sources then merge_cb sources sink i t d s else Some (s, []))"

fun merge_run :: "fn list \<Rightarrow> fn \<Rightarrow> merge_event list \<Rightarrow> merge_state \<Rightarrow> merge_state result" where
  "merge_run sources sink [] s = Some (s, [])"
| "merge_run sources sink (e # es) s =
     (case merge_step sources sink e s of
        None \<Rightarrow> None
      | Some (s1, cs) \<Rightarrow>
          (case merge_run sources sink es s1 of
             None \<Rightarrow> None
           | Some (s2, ds) \<Rightarrow> Some (s2, cs @ ds)))"

text \<open>The whole life of a channel: its creation, then the events that reach it.\<close>

definition merge_life :: "fn list \<Rightarrow> fn \<Rightarrow> merge_event list \<Rightarrow> call list option" where
  "merge_life sources sink es =
     (case merge sources 0 sink of
        None \<Rightarrow> None
      | Some (s0, cs) \<Rightarrow>
          (case merge_run sources sink es s0 of
             None \<Rightarrow> None
           | Some (s1, ds) \<Rightarrow> Some (cs @ ds)))"

section \<open>combine\<close>

text \<open>
  The counters are decremented on every START, first DATA and END, so they are
  integers; \<open>vals\<close> starts as \<open>new Array(n)\<close>, whose holes read as \<open>undefined\<close>;
  \<open>started\<close> is the index of \<open>sources.forEach\<close>.
\<close>

record combine_state =
  Ns :: int
  Nd :: int
  Ne :: int
  vals :: "val list"
  cTalkbacks :: "val list"
  started :: nat






definition combine_cb :: "fn \<Rightarrow> nat \<Rightarrow> nat \<Rightarrow> val \<Rightarrow> combine_state \<Rightarrow> combine_state result" where
  "combine_cb sink i t d s =
     (if t = 0 then
        (let s1 = s\<lparr> cTalkbacks := (cTalkbacks s)[i := d], Ns := Ns s - 1 \<rparr>
         in Some (s1, if Ns s1 = 0 then [Call sink 0 (Fn CombineTalkback)] else []))
      else if t = 1 then
        (let s1 = (if Nd s = 0 then s
                   else if vals s ! i = Sentinel then s\<lparr> Nd := Nd s - 1 \<rparr> else s);
             nd = (if Nd s = 0 then 0 else Nd s1);
             s2 = s1\<lparr> vals := (vals s1)[i := d] \<rparr>
         in Some (s2, if nd = 0 then [Call sink 1 (Arr (vals s2))] else []))
      else if t = 2 then
        (let s1 = s\<lparr> Ne := Ne s - 1 \<rparr>
         in Some (s1, if Ne s1 = 0 then [Call sink 2 Undefined] else []))
      else Some (s, [Call sink t d]))"




section \<open>sample\<close>

record sample_state =
  ltalkback :: val
  ptalkback :: val

definition sample_init :: sample_state where
  "sample_init = \<lparr> ltalkback = Undefined, ptalkback = Undefined \<rparr>"

text \<open>\<open>sample(pullable)(listenable)(start, sink)\<close>.\<close>

definition sample :: "fn \<Rightarrow> fn \<Rightarrow> nat \<Rightarrow> fn \<Rightarrow> sample_state result" where
  "sample pullable listenable start sink =
     (if start \<noteq> 0 then None
      else Some (sample_init, [Call listenable 0 (Fn SampleLcb)]))"

text \<open>The callback given to the listenable: three \<open>if\<close>s in sequence.\<close>

definition sample_lcb :: "fn \<Rightarrow> fn \<Rightarrow> nat \<Rightarrow> val \<Rightarrow> sample_state \<Rightarrow> sample_state result" where
  "sample_lcb pullable sink lt ld s =
     (let s1 = (if lt = 0 then s\<lparr> ltalkback := ld \<rparr> else s)
      in emit s1
          (seq (if lt = 0 then Some [Call pullable 0 (Fn SamplePcb), Call sink 0 (Fn SampleTalkback)]
                else Some [])
          (seq (if lt = 1 then invoke (ptalkback s1) 1 Undefined else Some [])
               (if lt = 2 then seq (invoke (ptalkback s1) 2 Undefined) (Some [Call sink 2 Undefined])
                else Some []))))"

text \<open>The callback given to the pullable.\<close>

definition sample_pcb :: "fn \<Rightarrow> nat \<Rightarrow> val \<Rightarrow> sample_state \<Rightarrow> sample_state result" where
  "sample_pcb sink pt pd s =
     (let s1 = (if pt = 0 then s\<lparr> ptalkback := pd \<rparr> else s)
      in emit s1
          (seq (if pt = 1 then Some [Call sink 1 pd] else Some [])
               (if pt = 2 then seq (invoke (ltalkback s1) 2 Undefined) (Some [Call sink 2 Undefined])
                else Some [])))"

definition sample_talkback :: "nat \<Rightarrow> sample_state \<Rightarrow> sample_state result" where
  "sample_talkback t s =
     emit s (if t = 2 then seq (invoke (ltalkback s) 2 Undefined) (invoke (ptalkback s) 2 Undefined)
             else Some [])"

section \<open>scan\<close>

text \<open>
  \<open>scan(reducer, seed)\<close> declares \<open>hasAcc\<close> once, in the scope of the operator;
  each invocation \<open>(start, sink)\<close> of the scanned source declares its own \<open>acc\<close> and
  its own callback. The seed is optional: \<open>arguments.length === 2\<close> is \<open>seed \<noteq> None\<close>,
  and a missing seed reads as \<open>undefined\<close>.
\<close>

record scan_channel =
  acc :: val
  scan_sink :: fn

record scan_state =
  hasAcc :: bool
  channels :: "scan_channel list"

definition scan :: "val option \<Rightarrow> scan_state" where
  "scan seed = \<lparr> hasAcc = (seed \<noteq> None), channels = [] \<rparr>"

definition seed_value :: "val option \<Rightarrow> val" where
  "seed_value seed = (case seed of None \<Rightarrow> Undefined | Some v \<Rightarrow> v)"

text \<open>The scanned source called with \<open>(start, sink)\<close>: a new channel.\<close>

definition scan_source :: "val option \<Rightarrow> fn \<Rightarrow> nat \<Rightarrow> fn \<Rightarrow> scan_state \<Rightarrow> scan_state result" where
  "scan_source seed source start sink s =
     (if start \<noteq> 0 then Some (s, [])
      else Some (s\<lparr> channels := channels s @ [\<lparr> acc = seed_value seed, scan_sink = sink \<rparr>] \<rparr>,
                 [Call source 0 (Fn (ScanCb (length (channels s))))]))"

text \<open>The callback of channel k.\<close>

definition scan_cb :: "(val \<Rightarrow> val \<Rightarrow> val) \<Rightarrow> nat \<Rightarrow> nat \<Rightarrow> val \<Rightarrow> scan_state \<Rightarrow> scan_state result" where
  "scan_cb reducer k t d s =
     (let ch = channels s ! k in
      if t = 1 then
        (let (s1, a) = (if hasAcc s then (s, reducer (acc ch) d)
                        else (s\<lparr> hasAcc := True \<rparr>, d))
         in Some (s1\<lparr> channels := (channels s1)[k := ch\<lparr> acc := a \<rparr>] \<rparr>,
                  [Call (scan_sink ch) 1 a]))
      else Some (s, [Call (scan_sink ch) t d]))"

datatype scan_event = SInvoke fn | SCb nat nat val

fun scan_step :: "(val \<Rightarrow> val \<Rightarrow> val) \<Rightarrow> val option \<Rightarrow> fn \<Rightarrow> scan_event \<Rightarrow> scan_state \<Rightarrow> scan_state result" where
  "scan_step reducer seed source (SInvoke sink) s = scan_source seed source 0 sink s"
| "scan_step reducer seed source (SCb k t d) s =
     (if k < length (channels s) then scan_cb reducer k t d s else Some (s, []))"

fun scan_run :: "(val \<Rightarrow> val \<Rightarrow> val) \<Rightarrow> val option \<Rightarrow> fn \<Rightarrow> scan_event list \<Rightarrow> scan_state \<Rightarrow> scan_state result" where
  "scan_run reducer seed source [] s = Some (s, [])"
| "scan_run reducer seed source (e # es) s =
     (case scan_step reducer seed source e s of
        None \<Rightarrow> None
      | Some (s1, cs) \<Rightarrow>
          (case scan_run reducer seed source es s1 of
             None \<Rightarrow> None
           | Some (s2, ds) \<Rightarrow> Some (s2, cs @ ds)))"

definition scan_life :: "(val \<Rightarrow> val \<Rightarrow> val) \<Rightarrow> val option \<Rightarrow> fn \<Rightarrow> scan_event list \<Rightarrow> call list option" where
  "scan_life reducer seed source es =
     (case scan_run reducer seed source es (scan seed) of
        None \<Rightarrow> None
      | Some (s, cs) \<Rightarrow> Some cs)"

text \<open>The reducer \<open>(a, v) => [a, v]\<close>.\<close>

definition pair_up :: "val \<Rightarrow> val \<Rightarrow> val" where
  "pair_up a v = Arr [a, v]"

section \<open>flatten\<close>

record flatten_state =
  outerEnded :: bool
  outerTalkback :: val
  innerTalkback :: val

definition flatten_init :: flatten_state where
  "flatten_init = \<lparr> outerEnded = False, outerTalkback = Undefined, innerTalkback = Undefined \<rparr>"

definition flatten :: "fn \<Rightarrow> nat \<Rightarrow> fn \<Rightarrow> flatten_state result" where
  "flatten source start sink =
     (if start \<noteq> 0 then None
      else Some (flatten_init, [Call source 0 (Fn FlattenOuterCb)]))"

text \<open>\<open>typeof x !== 'undefined'\<close> and its negation.\<close>

definition exists_val :: "val \<Rightarrow> bool" where
  "exists_val x = (x \<noteq> Undefined)"

definition absent :: "val \<Rightarrow> bool" where
  "absent x = (x = Undefined)"

text \<open>\<open>x && x(2)\<close>.\<close>

definition and_call :: "val \<Rightarrow> nat \<Rightarrow> val \<Rightarrow> call list option" where
  "and_call x t d = (if truthy x then invoke x t d else Some [])"

text \<open>The talkback handed downstream; \<open>noop\<close> is the last choice of the pull.\<close>

definition flatten_talkback :: "nat \<Rightarrow> val \<Rightarrow> flatten_state \<Rightarrow> flatten_state result" where
  "flatten_talkback t d s =
     emit s
       (seq (if t = 1 then
               invoke (if truthy (innerTalkback s) then innerTalkback s
                       else if truthy (outerTalkback s) then outerTalkback s
                       else Fn Noop) 1 d
             else Some [])
            (if t = 2 then
               seq (and_call (innerTalkback s) 2 Undefined) (and_call (outerTalkback s) 2 Undefined)
             else Some []))"

text \<open>The callback given to the outer source.\<close>

definition flatten_outer_cb :: "fn \<Rightarrow> nat \<Rightarrow> val \<Rightarrow> flatten_state \<Rightarrow> flatten_state result" where
  "flatten_outer_cb sink T D s =
     (if T = 0 then
        Some (s\<lparr> outerTalkback := D \<rparr>, [Call sink 0 (Fn FlattenTalkback)])
      else if T = 1 then
        emit s (seq (and_call (innerTalkback s) 2 Undefined) (invoke D 0 (Fn FlattenInnerCb)))
      else if T = 2 \<and> absent D then
        (if \<not> truthy (innerTalkback s) then Some (s, [Call sink 2 Undefined])
         else Some (s\<lparr> outerEnded := True \<rparr>, []))
      else if T = 2 \<and> exists_val D then Some (s, [Call sink 2 D])
      else Some (s, []))"

text \<open>The callback given to each inner source.\<close>

definition flatten_inner_cb :: "fn \<Rightarrow> nat \<Rightarrow> val \<Rightarrow> flatten_state \<Rightarrow> flatten_state result" where
  "flatten_inner_cb sink t d s =
     (if t = 0 then
        emit (s\<lparr> innerTalkback := d \<rparr>) (invoke d 1 Undefined)
      else if t = 1 then Some (s, [Call sink 1 d])
      else if t = 2 \<and> absent d then
        (if outerEnded s then Some (s, [Call sink 2 Undefined])
         else emit (s\<lparr> innerTalkback := Undefined \<rparr>) (invoke (outerTalkback s) 1 Undefined))
      else if t = 2 \<and> exists_val d then Some (s, [Call sink 2 d])
      else Some (s, []))"

datatype flatten_event = FTalkback nat val | FOuter nat val | FInner nat val

fun flatten_step :: "fn \<Rightarrow> flatten_event \<Rightarrow> flatten_state \<Rightarrow> flatten_state result" where
  "flatten_step sink (FTalkback t d) s = flatten_talkback t d s"
| "flatten_step sink (FOuter t d) s = flatten_outer_cb sink t d s"
| "flatten_step sink (FInner t d) s = flatten_inner_cb sink t d s"

fun flatten_run :: "fn \<Rightarrow> flatten_event list \<Rightarrow> flatten_state \<Rightarrow> flatten_state result" where
  "flatten_run sink [] s = Some (s, [])"
| "flatten_run sink (e # es) s =
     (case flatten_step sink e s of
        None \<Rightarrow> None
      | Some (s1, cs) \<Rightarrow>
          (case flatten_run sink es s1 of
             None \<Rightarrow> None
           | Some (s2, ds) \<Rightarrow> Some (s2, cs @ ds)))"

definition flatten_life :: "fn \<Rightarrow> fn \<Rightarrow> flatten_event list \<Rightarrow> call list option" where
  "flatten_life source sink es =
     (case flatten source 0 sink of
        None \<Rightarrow> None
      | Some (s0, cs) \<Rightarrow>
          (case flatten_run sink es s0 of
             None \<Rightarrow> None
           | Some (s1, ds) \<Rightarrow> Some (cs @ ds)))"

section \<open>combine, as the specification words it\<close>



text \<open>The values the sink receives as DATA.\<close>

fun data_of :: "fn \<Rightarrow> call list \<Rightarrow> val list" where
  "data_of k [] = []"
| "data_of k (Call f t d # cs) = (if f = k \<and> t = 1 then d # data_of k cs else data_of k cs)"







section \<open>concat\<close>

record concat_state =
  concat_i :: nat
  sourceTalkback :: val

definition concat_init :: concat_state where
  "concat_init = \<lparr> concat_i = 0, sourceTalkback = Undefined \<rparr>"

text \<open>
  The function \<open>next\<close>: END for the sink after the last source, else the start of
  source i. Beyond the last source \<open>sources[i]\<close> is \<open>undefined\<close> and the call throws.
\<close>

definition concat_next :: "fn list \<Rightarrow> fn \<Rightarrow> concat_state \<Rightarrow> concat_state result" where
  "concat_next sources sink s =
     (if concat_i s = length sources then Some (s, [Call sink 2 Undefined])
      else if concat_i s < length sources then
        Some (s, [Call (sources ! concat_i s) 0 (Fn ConcatCb)])
      else None)"

definition concat_op :: "fn list \<Rightarrow> nat \<Rightarrow> fn \<Rightarrow> concat_state result" where
  "concat_op sources start sink =
     (if start \<noteq> 0 then None
      else if length sources = 0 then
        Some (concat_init, [Call sink 0 (Fn Noop), Call sink 2 Undefined])
      else concat_next sources sink concat_init)"

definition concat_talkback :: "nat \<Rightarrow> val \<Rightarrow> concat_state \<Rightarrow> concat_state result" where
  "concat_talkback t d s =
     (if t = 1 \<or> t = 2 then emit s (invoke (sourceTalkback s) t d) else Some (s, []))"

text \<open>
  The callback given to every source; each is a closure over the same \<open>i\<close> and
  \<open>sourceTalkback\<close>.
\<close>

definition concat_cb :: "fn list \<Rightarrow> fn \<Rightarrow> nat \<Rightarrow> val \<Rightarrow> concat_state \<Rightarrow> concat_state result" where
  "concat_cb sources sink t d s =
     (if t = 0 then
        (let s1 = s\<lparr> sourceTalkback := d \<rparr>
         in if concat_i s1 = 0 then Some (s1, [Call sink 0 (Fn ConcatTalkback)])
            else emit s1 (invoke (sourceTalkback s1) 1 Undefined))
      else if t = 1 then Some (s, [Call sink 1 d])
      else if t = 2 then concat_next sources sink (s\<lparr> concat_i := concat_i s + 1 \<rparr>)
      else Some (s, []))"

text \<open>
  What reaches a channel of concat: the talkback, and the callback called by source j.
\<close>

datatype concat_event = KTalkback nat val | KCb nat nat val

fun concat_step :: "fn list \<Rightarrow> fn \<Rightarrow> concat_event \<Rightarrow> concat_state \<Rightarrow> concat_state result" where
  "concat_step sources sink (KTalkback t d) s = concat_talkback t d s"
| "concat_step sources sink (KCb j t d) s = concat_cb sources sink t d s"

fun concat_run :: "fn list \<Rightarrow> fn \<Rightarrow> concat_event list \<Rightarrow> concat_state \<Rightarrow> concat_state result" where
  "concat_run sources sink [] s = Some (s, [])"
| "concat_run sources sink (e # es) s =
     (case concat_step sources sink e s of
        None \<Rightarrow> None
      | Some (s1, cs) \<Rightarrow>
          (case concat_run sources sink es s1 of
             None \<Rightarrow> None
           | Some (s2, ds) \<Rightarrow> Some (s2, cs @ ds)))"

definition concat_life :: "fn list \<Rightarrow> fn \<Rightarrow> concat_event list \<Rightarrow> call list option" where
  "concat_life sources sink es =
     (case concat_op sources 0 sink of
        None \<Rightarrow> None
      | Some (s0, cs) \<Rightarrow>
          (case concat_run sources sink es s0 of
             None \<Rightarrow> None
           | Some (s1, ds) \<Rightarrow> Some (cs @ ds)))"

text \<open>
  The protocol on the side of the sources: source j sends START with a talkback, then
  values, then END, and only source j + 1 sends after that; the sink calls the talkback
  only once it has it. \<open>j\<close> is the source whose turn it is, \<open>st\<close> whether it has sent
  START, \<open>tb\<close> whether any talkback has been handed over. No talkback is the sink.
\<close>

fun concat_wf :: "fn \<Rightarrow> nat \<Rightarrow> nat \<Rightarrow> bool \<Rightarrow> bool \<Rightarrow> concat_event list \<Rightarrow> bool" where
  "concat_wf sink n j st tb [] = True"
| "concat_wf sink n j st tb (KTalkback t d # es) = (tb \<and> concat_wf sink n j st tb es)"
| "concat_wf sink n j st tb (KCb k t d # es) =
     (k = j \<and> j < n \<and>
      (if t = 0 then \<not> st \<and> (\<exists>f. d = Fn f \<and> f \<noteq> sink) \<and> concat_wf sink n j True True es
       else if t = 1 then st \<and> concat_wf sink n j True tb es
       else t = 2 \<and> st \<and> concat_wf sink n (j + 1) False tb es))"

text \<open>
  The calls the claim describes, event by event: the START of the first source gives
  the sink its START, the START of a later source is answered by a pull, a value goes to
  the sink as it is, the END of a source starts the next source (END for the sink after
  the last), and the sink's pull or END goes to the talkback of the current source.
\<close>

fun concat_expected :: "fn list \<Rightarrow> fn \<Rightarrow> val \<Rightarrow> concat_event list \<Rightarrow> call list" where
  "concat_expected sources sink tb [] = []"
| "concat_expected sources sink tb (KTalkback t d # es) =
     (case tb of Fn f \<Rightarrow> (if t = 1 \<or> t = 2 then [Call f t d] else []) | _ \<Rightarrow> [])
     @ concat_expected sources sink tb es"
| "concat_expected sources sink tb (KCb j t d # es) =
     (if t = 0 then
        (if j = 0 then [Call sink 0 (Fn ConcatTalkback)]
         else (case d of Fn f \<Rightarrow> [Call f 1 Undefined] | _ \<Rightarrow> []))
        @ concat_expected sources sink d es
      else if t = 1 then Call sink 1 d # concat_expected sources sink tb es
      else (if j + 1 < length sources then [Call (sources ! (j + 1)) 0 (Fn ConcatCb)]
            else [Call sink 2 Undefined])
           @ concat_expected sources sink tb es)"

text \<open>The values source j sends.\<close>

fun data_from :: "nat \<Rightarrow> concat_event list \<Rightarrow> val list" where
  "data_from j [] = []"
| "data_from j (KCb k t d # es) = (if k = j \<and> t = 1 then d # data_from j es else data_from j es)"
| "data_from j (e # es) = data_from j es"

text \<open>All the values the sources send, in the order of the events.\<close>

fun all_data :: "concat_event list \<Rightarrow> val list" where
  "all_data [] = []"
| "all_data (KCb k t d # es) = (if t = 1 then d # all_data es else all_data es)"
| "all_data (e # es) = all_data es"

section \<open>share\<close>

text \<open>
  \<open>sinks\<close> and \<open>sourceTalkback\<close> belong to \<open>share(source)\<close>; every call of
  \<open>shared(start, sink)\<close> creates a talkback that closes over its \<open>sink\<close>, and the
  call that finds the list empty also creates the callback given to the source.

  The callback calls every sink of a copy of the list, one after the other, and a sink
  may call back into share before it returns (it may pull, and the source may answer
  inside the pull). So share is modelled with the nested calls executed. What the
  surroundings do is given as a tree: \<open>Rx\<close> is what one function of the surroundings
  does while it is called, the calls into share it makes, in order, each with the
  reactions to the calls share makes in turn. The log lists, in the order of time,
  every entry into share (\<open>In\<close>) and every call share makes, of the source or its
  talkback (\<open>ToSource\<close>) or of a sink (\<open>ToSink\<close>).
\<close>

record share_state =
  sinks :: "fn list"
  share_sourceTalkback :: val

definition share :: share_state where
  "share = \<lparr> sinks = [], share_sourceTalkback = Undefined \<rparr>"

datatype share_event = HAttach fn | HTalkback fn nat val | HCb fn nat val

datatype share_entry = In share_event | ToSource call | ToSink call

datatype rx = Rx "(share_event \<times> rx list) list"

text \<open>\<open>shared(start, sink)\<close>: the assignment and the one call it ends with.\<close>

definition shared :: "fn \<Rightarrow> nat \<Rightarrow> fn \<Rightarrow> share_state \<Rightarrow> share_state \<times> share_entry list" where
  "shared source start sink s =
     (if start \<noteq> 0 then (s, [])
      else
        (let s1 = s\<lparr> sinks := sinks s @ [sink] \<rparr>
         in if length (sinks s1) = 1 then (s1, [ToSource (Call source 0 (Fn (ShareCb sink)))])
            else (s1, [ToSink (Call sink 0 (Fn (ShareTalkback sink)))])))"

text \<open>
  The talkback of \<open>sink\<close>: \<open>splice\<close> at \<open>indexOf(sink)\<close> removes the first
  occurrence; calling \<open>sourceTalkback\<close> while it is no function throws (\<open>None\<close>).
\<close>

definition share_talkback :: "fn \<Rightarrow> nat \<Rightarrow> val \<Rightarrow> share_state
    \<Rightarrow> (share_state \<times> share_entry list) option" where
  "share_talkback sink t d s =
     (if t = 0 then Some (s, [])
      else if t = 2 then
        (let s1 = s\<lparr> sinks := remove1 sink (sinks s) \<rparr>
         in if sinks s1 = [] then
              (case share_sourceTalkback s1 of
                 Fn f \<Rightarrow> Some (s1, [ToSource (Call f 2 Undefined)])
               | _ \<Rightarrow> None)
            else Some (s1, []))
      else (case share_sourceTalkback s of
              Fn f \<Rightarrow> Some (s, [ToSource (Call f t d)])
            | _ \<Rightarrow> None))"

text \<open>
  The callback given to the source by the call of \<open>shared\<close> for \<open>sink\<close>, in two
  parts: the assignment and the calls it makes (with a tag other than 0, one call per
  element of the copy \<open>sinks.slice(0)\<close> taken when it is entered), and the statement
  \<open>if (t === 2) sinks = []\<close> that runs after the calls have returned.
\<close>

definition share_cb :: "fn \<Rightarrow> nat \<Rightarrow> val \<Rightarrow> share_state \<Rightarrow> share_state \<times> share_entry list" where
  "share_cb sink t d s =
     (if t = 0 then (s\<lparr> share_sourceTalkback := d \<rparr>,
                     [ToSink (Call sink 0 (Fn (ShareTalkback sink)))])
      else (s, map (\<lambda>x. ToSink (Call x t d)) (sinks s)))"

definition share_cb_end :: "nat \<Rightarrow> share_state \<Rightarrow> share_state" where
  "share_cb_end t s = (if t = 2 then s\<lparr> sinks := [] \<rparr> else s)"

text \<open>
  \<open>share_rx\<close> runs the calls into share of one reaction, \<open>share_ev\<close> one call into
  share with the reactions to the calls it makes, \<open>share_do\<close> the calls of one
  closure, each followed by what the function called does before it returns. A call
  without a reaction in the tree is a function that returns at once.
\<close>

fun share_rx :: "fn \<Rightarrow> rx \<Rightarrow> share_state \<Rightarrow> (share_state \<times> share_entry list) option"
  and share_ev :: "fn \<Rightarrow> share_event \<Rightarrow> rx list \<Rightarrow> share_state \<Rightarrow> (share_state \<times> share_entry list) option"
  and share_do :: "fn \<Rightarrow> share_entry list \<Rightarrow> rx list \<Rightarrow> share_state \<Rightarrow> (share_state \<times> share_entry list) option"
where
  "share_rx source (Rx []) s = Some (s, [])"
| "share_rx source (Rx ((e, rs) # evs)) s =
     (case share_ev source e rs s of
        None \<Rightarrow> None
      | Some (s1, l1) \<Rightarrow>
          (case share_rx source (Rx evs) s1 of
             None \<Rightarrow> None
           | Some (s2, l2) \<Rightarrow> Some (s2, l1 @ l2)))"
| "share_ev source (HAttach k) rs s =
     (case share_do source (snd (shared source 0 k s)) rs (fst (shared source 0 k s)) of
        None \<Rightarrow> None
      | Some (s1, l) \<Rightarrow> Some (s1, In (HAttach k) # l))"
| "share_ev source (HTalkback k t d) rs s =
     (case share_talkback k t d s of
        None \<Rightarrow> None
      | Some (s0, cs) \<Rightarrow>
          (case share_do source cs rs s0 of
             None \<Rightarrow> None
           | Some (s1, l) \<Rightarrow> Some (s1, In (HTalkback k t d) # l)))"
| "share_ev source (HCb k t d) rs s =
     (case share_do source (snd (share_cb k t d s)) rs (fst (share_cb k t d s)) of
        None \<Rightarrow> None
      | Some (s1, l) \<Rightarrow> Some (share_cb_end t s1, In (HCb k t d) # l))"
| "share_do source [] rs s = Some (s, [])"
| "share_do source (c # cs) [] s =
     (case share_do source cs [] s of
        None \<Rightarrow> None
      | Some (s1, l) \<Rightarrow> Some (s1, c # l))"
| "share_do source (c # cs) (r # rs) s =
     (case share_rx source r s of
        None \<Rightarrow> None
      | Some (s1, l1) \<Rightarrow>
          (case share_do source cs rs s1 of
             None \<Rightarrow> None
           | Some (s2, l2) \<Rightarrow> Some (s2, c # l1 @ l2)))"

text \<open>The parts of a log: the calls into share, the calls of the source, the calls of sinks.\<close>

fun ins :: "share_entry list \<Rightarrow> share_event list" where
  "ins [] = []"
| "ins (In e # l) = e # ins l"
| "ins (c # l) = ins l"

fun ups :: "share_entry list \<Rightarrow> call list" where
  "ups [] = []"
| "ups (ToSource c # l) = c # ups l"
| "ups (c # l) = ups l"

fun downs :: "share_entry list \<Rightarrow> call list" where
  "downs [] = []"
| "downs (ToSink c # l) = c # downs l"
| "downs (c # l) = downs l"

text \<open>The values a sink is sent as DATA, in the order of the log.\<close>

fun data_to :: "fn \<Rightarrow> share_entry list \<Rightarrow> val list" where
  "data_to x [] = []"
| "data_to x (ToSink (Call f t d) # l) = (if f = x \<and> t = 1 then d # data_to x l else data_to x l)"
| "data_to x (c # l) = data_to x l"

section \<open>share, as the specification words it\<close>

text \<open>
  The sinks attached: a sink that attaches joins them, a sink whose talkback is called
  with END leaves them. The talkback of the source: the payload of its last START.
\<close>

fun attached :: "fn list \<Rightarrow> share_event \<Rightarrow> fn list" where
  "attached a (HAttach k) = a @ [k]"
| "attached a (HTalkback k t d) = (if t = 2 then remove1 k a else a)"
| "attached a (HCb k t d) = a"

fun handed :: "val \<Rightarrow> share_event \<Rightarrow> val" where
  "handed tb (HCb k t d) = (if t = 0 then d else tb)"
| "handed tb e = tb"

fun attached_after :: "fn list \<Rightarrow> share_event list \<Rightarrow> fn list" where
  "attached_after a [] = a"
| "attached_after a (e # es) = attached_after (attached a e) es"

fun handed_after :: "val \<Rightarrow> share_event list \<Rightarrow> val" where
  "handed_after tb [] = tb"
| "handed_after tb (e # es) = handed_after (handed tb e) es"

text \<open>
  What share owes to one call, given the sinks attached and the talkback of the source:
  a sink that attaches while none is attached starts the source, any other is sent its
  START and nothing else; an END on a talkback that leaves no sink attached is passed
  to the source as END, any other END to nobody, a pull to the source; the START of
  the source is passed to the sink that started it; any other message of the source is
  sent to every sink attached, in the order in which they attached.
\<close>

fun share_answer :: "fn \<Rightarrow> fn list \<Rightarrow> val \<Rightarrow> share_event \<Rightarrow> share_entry list" where
  "share_answer source a tb (HAttach k) =
     (if a = [] then [ToSource (Call source 0 (Fn (ShareCb k)))]
      else [ToSink (Call k 0 (Fn (ShareTalkback k)))])"
| "share_answer source a tb (HTalkback k t d) =
     (case tb of
        Fn f \<Rightarrow>
          (if t = 0 then []
           else if t = 2 then (if remove1 k a = [] then [ToSource (Call f 2 Undefined)] else [])
           else [ToSource (Call f t d)])
      | _ \<Rightarrow> [])"
| "share_answer source a tb (HCb k t d) =
     (if t = 0 then [ToSink (Call k 0 (Fn (ShareTalkback k)))]
      else map (\<lambda>x. ToSink (Call x t d)) a)"

fun share_expected :: "fn \<Rightarrow> fn list \<Rightarrow> val \<Rightarrow> share_event list \<Rightarrow> share_entry list" where
  "share_expected source a tb [] = []"
| "share_expected source a tb (e # es) =
     share_answer source a tb e @ share_expected source (attached a e) (handed tb e) es"

text \<open>
  The source is live and keeps to the protocol: it does not send END, and the payload
  of its START is a function.
\<close>

fun live_event :: "share_event \<Rightarrow> bool" where
  "live_event (HCb k t d) = (t \<noteq> 2 \<and> (t = 0 \<longrightarrow> is_fn d))"
| "live_event e = True"

fun live_rx :: "rx \<Rightarrow> bool"
  and live_evs :: "(share_event \<times> rx list) list \<Rightarrow> bool"
  and live_rxs :: "rx list \<Rightarrow> bool"
where
  "live_rx (Rx evs) = live_evs evs"
| "live_evs [] = True"
| "live_evs ((e, rs) # evs) = (live_event e \<and> live_rxs rs \<and> live_evs evs)"
| "live_rxs [] = True"
| "live_rxs (r # rs) = (live_rx r \<and> live_rxs rs)"

text \<open>
  No broadcast inside a broadcast: while a sink is called with a message of the
  source, nothing it does makes the source send another one. \<open>b\<close> tells whether the
  tree is the reaction of a sink called in a broadcast.
\<close>

fun is_broadcast :: "share_event \<Rightarrow> bool" where
  "is_broadcast (HCb k t d) = (t \<noteq> 0)"
| "is_broadcast e = False"

fun calm_rx :: "bool \<Rightarrow> rx \<Rightarrow> bool"
  and calm_evs :: "bool \<Rightarrow> (share_event \<times> rx list) list \<Rightarrow> bool"
  and calm_rxs :: "bool \<Rightarrow> rx list \<Rightarrow> bool"
where
  "calm_rx b (Rx evs) = calm_evs b evs"
| "calm_evs b [] = True"
| "calm_evs b ((e, rs) # evs) =
     ((b \<longrightarrow> \<not> is_broadcast e) \<and> calm_rxs (b \<or> is_broadcast e) rs \<and> calm_evs b evs)"
| "calm_rxs b [] = True"
| "calm_rxs b (r # rs) = (calm_rx b r \<and> calm_rxs b rs)"

text \<open>
  The log that is owed for a tree of reactions: every call into share is entered, its
  answer is made call by call, and what the function called does is entered before the
  next call of the answer is made. The sinks attached and the talkback of the source
  are read off the calls entered so far.
\<close>

fun share_log_rx :: "fn \<Rightarrow> fn list \<Rightarrow> val \<Rightarrow> rx \<Rightarrow> share_entry list"
  and share_log_ev :: "fn \<Rightarrow> fn list \<Rightarrow> val \<Rightarrow> share_event \<Rightarrow> rx list \<Rightarrow> share_entry list"
  and share_log_do :: "fn \<Rightarrow> fn list \<Rightarrow> val \<Rightarrow> share_entry list \<Rightarrow> rx list \<Rightarrow> share_entry list"
where
  "share_log_rx source a tb (Rx []) = []"
| "share_log_rx source a tb (Rx ((e, rs) # evs)) =
     share_log_ev source a tb e rs
     @ share_log_rx source (attached_after a (ins (share_log_ev source a tb e rs)))
         (handed_after tb (ins (share_log_ev source a tb e rs))) (Rx evs)"
| "share_log_ev source a tb e rs =
     In e # share_log_do source (attached a e) (handed tb e) (share_answer source a tb e) rs"
| "share_log_do source a tb [] rs = []"
| "share_log_do source a tb (c # cs) [] = c # share_log_do source a tb cs []"
| "share_log_do source a tb (c # cs) (r # rs) =
     c # share_log_rx source a tb r
     @ share_log_do source (attached_after a (ins (share_log_rx source a tb r)))
         (handed_after tb (ins (share_log_rx source a tb r))) cs rs"

text \<open>What a run from \<open>s\<close> to \<open>s'\<close> with log \<open>l\<close> is shown to satisfy.\<close>

definition tb_fun :: "share_state \<Rightarrow> bool" where
  "tb_fun s = is_fn (share_sourceTalkback s)"

definition expected_of :: "fn \<Rightarrow> share_state \<Rightarrow> share_entry list \<Rightarrow> share_entry list" where
  "expected_of source s l = share_expected source (sinks s) (share_sourceTalkback s) (ins l)"

definition follows :: "share_state \<Rightarrow> share_state \<Rightarrow> share_entry list \<Rightarrow> bool" where
  "follows s s' l = (tb_fun s' \<and> sinks s' = attached_after (sinks s) (ins l)
     \<and> share_sourceTalkback s' = handed_after (share_sourceTalkback s) (ins l))"

definition no_data :: "share_entry list \<Rightarrow> bool" where
  "no_data cs = (\<forall>x. data_to x cs = [])"

definition rx_ok :: "fn \<Rightarrow> rx \<Rightarrow> share_state \<Rightarrow> share_state \<Rightarrow> share_entry list \<Rightarrow> bool" where
  "rx_ok source r s s' l = (follows s s' l
     \<and> ups l = ups (expected_of source s l)
     \<and> mset (downs l) = mset (downs (expected_of source s l))
     \<and> (\<forall>b x. calm_rx b r \<longrightarrow> data_to x l = data_to x (expected_of source s l)
                 \<and> (b \<longrightarrow> data_to x l = [])))"

definition ev_ok :: "fn \<Rightarrow> share_event \<Rightarrow> rx list \<Rightarrow> share_state \<Rightarrow> share_state \<Rightarrow> share_entry list \<Rightarrow> bool" where
  "ev_ok source e rs s s' l = (follows s s' l
     \<and> ups l = ups (expected_of source s l)
     \<and> mset (downs l) = mset (downs (expected_of source s l))
     \<and> (\<forall>b x. (b \<longrightarrow> \<not> is_broadcast e) \<longrightarrow> calm_rxs (b \<or> is_broadcast e) rs
           \<longrightarrow> data_to x l = data_to x (expected_of source s l) \<and> (b \<longrightarrow> data_to x l = [])))"

definition do_ok :: "fn \<Rightarrow> share_entry list \<Rightarrow> rx list \<Rightarrow> share_state \<Rightarrow> share_state \<Rightarrow> share_entry list \<Rightarrow> bool" where
  "do_ok source cs rs s s' l = (follows s s' l
     \<and> ups l = ups cs @ ups (expected_of source s l)
     \<and> mset (downs l) = mset (downs cs) + mset (downs (expected_of source s l))
     \<and> (\<forall>b x. calm_rxs b rs \<longrightarrow> (b \<or> no_data cs)
           \<longrightarrow> data_to x l = data_to x cs @ data_to x (expected_of source s l)
               \<and> (b \<longrightarrow> data_to x (expected_of source s l) = [])))"

section \<open>makeSubject\<close>








section \<open>forEach, fromIter and take, with the calls executed\<close>

text \<open>
  forEach pulls from inside the callback that delivers a value, so for these three the
  calls are executed rather than listed: \<open>exec n f args w\<close> runs the function value
  \<open>f\<close> on the arguments in the world \<open>w\<close> of all closure variables, and every
  call inside it runs to its end before the caller goes on. \<open>n\<close> bounds the depth
  of nested calls; \<open>None\<close> is a run that exceeds it or throws. \<open>trace\<close> records
  every call of a protocol function in order.

  The variables, per closure: \<open>fe_talkback\<close> is \<open>talkback\<close> of forEach; \<open>iter\<close>
  is the array given to fromIter and \<open>iterator\<close> what is left of its iterator,
  \<open>res\<close> the last \<open>{done, value}\<close> (\<open>None\<close> while undefined); \<open>take_max\<close>,
  \<open>take_source\<close> are the arguments of take and \<open>take_sourceTalkback\<close> its
  \<open>sourceTalkback\<close>. The counter is a source of the surroundings,
  \<open>(start, sink) => { if (start !== 0) return; let i = 0;
  sink(0, t => { if (t === 1) sink(1, i++); }); }\<close>,
  which answers each pull at once.
\<close>

record world =
  trace :: "(fn \<times> val list) list"
  fe_talkback :: val
  iter :: "val list"
  fi_sink :: fn
  iterator :: "val list"
  inloop :: bool
  got1 :: bool
  completed :: bool
  res :: "(bool \<times> val) option"
  take_max :: int
  take_source :: fn
  take_sink :: fn
  taken :: int
  take_sourceTalkback :: val
  counter_sink :: fn
  counter_i :: int

definition logged :: "fn \<Rightarrow> val list \<Rightarrow> world \<Rightarrow> world" where
  "logged f args w = w\<lparr> trace := trace w @ [(f, args)] \<rparr>"

text \<open>An argument that is not passed reads as \<open>undefined\<close>.\<close>

definition nth_arg :: "val list \<Rightarrow> nat \<Rightarrow> val" where
  "nth_arg args i = (if i < length args then args ! i else Undefined)"

text \<open>Calling the content of a variable; a value that is no function throws.\<close>

definition callv :: "(fn \<Rightarrow> val list \<Rightarrow> world \<Rightarrow> world option) \<Rightarrow> val \<Rightarrow> val list \<Rightarrow> world \<Rightarrow> world option" where
  "callv c v args w = (case v of Fn f \<Rightarrow> c f args w | _ \<Rightarrow> None)"

text \<open>\<open>res && res.done\<close>.\<close>

definition res_done :: "(bool \<times> val) option \<Rightarrow> bool" where
  "res_done r = (case r of None \<Rightarrow> False | Some (dn, v) \<Rightarrow> dn)"

fun exec :: "nat \<Rightarrow> fn \<Rightarrow> val list \<Rightarrow> world \<Rightarrow> world option" where
  "exec 0 f args w0 = None"
| "exec (Suc n) ForEachCb args w0 =
     (let w = logged ForEachCb args w0; t = nth_arg args 0; d = nth_arg args 1;
          w1 = (if t = Num 0 then w\<lparr> fe_talkback := d \<rparr> else w)
      in case (if t = Num 1 then exec n Operation [d] w1 else Some w1) of
           None \<Rightarrow> None
         | Some w2 \<Rightarrow>
             if t = Num 1 \<or> t = Num 0 then callv (exec n) (fe_talkback w2) [Num 1] w2
             else Some w2)"
| "exec (Suc n) Operation args w0 = Some (logged Operation args w0)"
| "exec (Suc n) FromIterSource args w0 =
     (let w = logged FromIterSource args w0
      in if nth_arg args 0 \<noteq> Num 0 then Some w
         else (case nth_arg args 1 of
                 Fn k \<Rightarrow>
                   exec n k [Num 0, Fn FromIterTalkback]
                     (w\<lparr> fi_sink := k, iterator := iter w, inloop := False, got1 := False,
                          completed := False, res := None \<rparr>)
               | _ \<Rightarrow> None))"
| "exec (Suc n) FromIterTalkback args w0 =
     (let w = logged FromIterTalkback args w0; t = nth_arg args 0
      in if completed w then Some w
         else if t = Num 1 then
           (let w1 = w\<lparr> got1 := True \<rparr>
            in if \<not> inloop w1 \<and> \<not> res_done (res w1) then exec n FromIterLoop [] w1
               else Some w1)
         else if t = Num 2 then Some (w\<lparr> completed := True \<rparr>)
         else Some w)"
| "exec (Suc n) FromIterLoop args w =
     (case exec n FromIterWhile [] (w\<lparr> inloop := True \<rparr>) of
        None \<Rightarrow> None
      | Some w1 \<Rightarrow> Some (w1\<lparr> inloop := False \<rparr>))"
| "exec (Suc n) FromIterWhile args w =
     (if got1 w \<and> \<not> completed w then
        (let w1 = w\<lparr> got1 := False \<rparr>
         in case iterator w1 of
              [] \<Rightarrow> exec n (fi_sink w1) [Num 2] (w1\<lparr> res := Some (True, Undefined) \<rparr>)
            | x # xs \<Rightarrow>
                (case exec n (fi_sink w1) [Num 1, x]
                        (w1\<lparr> res := Some (False, x), iterator := xs \<rparr>) of
                   None \<Rightarrow> None
                 | Some w2 \<Rightarrow> exec n FromIterWhile [] w2))
      else Some w)"
| "exec (Suc n) TakeSource args w0 =
     (let w = logged TakeSource args w0
      in if nth_arg args 0 \<noteq> Num 0 then Some w
         else (case nth_arg args 1 of
                 Fn k \<Rightarrow>
                   exec n (take_source w) [Num 0, Fn TakeCb]
                     (w\<lparr> take_sink := k, taken := 0, take_sourceTalkback := Undefined \<rparr>)
               | _ \<Rightarrow> None))"
| "exec (Suc n) TakeTalkback args w0 =
     (let w = logged TakeTalkback args w0; t = nth_arg args 0; d = nth_arg args 1
      in if taken w < take_max w then callv (exec n) (take_sourceTalkback w) [t, d] w
         else Some w)"
| "exec (Suc n) TakeCb args w0 =
     (let w = logged TakeCb args w0; t = nth_arg args 0; d = nth_arg args 1
      in if t = Num 0 then
           (let w1 = w\<lparr> take_sourceTalkback := d \<rparr>
            in exec n (take_sink w1) [Num 0, Fn TakeTalkback] w1)
         else if t = Num 1 then
           (if taken w < take_max w then
              (case exec n (take_sink w) [t, d] (w\<lparr> taken := taken w + 1 \<rparr>) of
                 None \<Rightarrow> None
               | Some w2 \<Rightarrow>
                   if taken w2 = take_max w2 then
                     (case exec n (take_sink w2) [Num 2] w2 of
                        None \<Rightarrow> None
                      | Some w3 \<Rightarrow> callv (exec n) (take_sourceTalkback w3) [Num 2] w3)
                   else Some w2)
            else Some w)
         else exec n (take_sink w) [t, d] w)"
| "exec (Suc n) CounterSource args w0 =
     (let w = logged CounterSource args w0
      in if nth_arg args 0 \<noteq> Num 0 then Some w
         else (case nth_arg args 1 of
                 Fn k \<Rightarrow> exec n k [Num 0, Fn CounterTalkback]
                           (w\<lparr> counter_sink := k, counter_i := 0 \<rparr>)
               | _ \<Rightarrow> None))"
| "exec (Suc n) CounterTalkback args w0 =
     (let w = logged CounterTalkback args w0
      in if nth_arg args 0 = Num 1 then
           exec n (counter_sink w) [Num 1, Num (counter_i w)] (w\<lparr> counter_i := counter_i w + 1 \<rparr>)
         else Some w)"
| "exec (Suc n) f args w0 = Some (logged f args w0)"

text \<open>\<open>forEach(operation)(source)\<close>: \<open>source(0, cb)\<close>.\<close>

definition forEach :: "nat \<Rightarrow> fn \<Rightarrow> world \<Rightarrow> world option" where
  "forEach n source w = exec n source [Num 0, Fn ForEachCb] w"

text \<open>A world before anything has run.\<close>

definition world0 :: "val list \<Rightarrow> int \<Rightarrow> fn \<Rightarrow> world" where
  "world0 xs m src = \<lparr> trace = [], fe_talkback = Undefined, iter = xs, fi_sink = Noop,
     iterator = [], inloop = False, got1 = False, completed = False, res = None,
     take_max = m, take_source = src, take_sink = Noop, taken = 0,
     take_sourceTalkback = Undefined, counter_sink = Noop, counter_i = 0 \<rparr>"

text \<open>What a function has been called with, in order.\<close>

definition received :: "fn \<Rightarrow> world \<Rightarrow> val list list" where
  "received f w = map snd (filter (\<lambda>c. fst c = f) (trace w))"

definition item_calls :: "val \<Rightarrow> (fn \<times> val list) list" where
  "item_calls x = [(ForEachCb, [Num 1, x]), (Operation, [x]), (FromIterTalkback, [Num 1])]"

definition fe_trace :: "val list \<Rightarrow> (fn \<times> val list) list" where
  "fe_trace S = [(FromIterSource, [Num 0, Fn ForEachCb]), (ForEachCb, [Num 0, Fn FromIterTalkback]),
                 (FromIterTalkback, [Num 1])]
                @ concat (map item_calls S) @ [(ForEachCb, [Num 2])]"

section \<open>Theorems\<close>

lemma merge_run_nil_sources:
  "sourceTalkbacks s = [] \<Longrightarrow> merge_run [] sink es s = Some (s, [])"
proof (induction es)
  case Nil
  show ?case by simp
next
  case (Cons e es)
  from Cons.prems have "merge_step [] sink e s = Some (s, [])"
    by (cases e) (simp_all add: merge_talkback_def emit_def)
  with Cons show ?case by simp
qed

text \<open>
  C1 (as stated): merge of zero sources sends the sink a START at once. The code sends
  START only from the callback of a source, and with no source there is no callback:
  the invocation makes no call at all.
\<close>

theorem merge_zero_start_counterexample:
  "(case merge_life [] (Ext 0) [] of
      None \<Rightarrow> False
    | Some cs \<Rightarrow> \<not> list_ex (is_start (Ext 0)) cs)"
  by (simp add: merge_life_def merge_def merge_init_def)

text \<open>
  C1 (amended): merge of zero sources never calls the sink, whatever reaches the
  channel afterwards: no START, no DATA and no END.
\<close>

theorem merge_zero_silent:
  "merge_life [] sink es = Some []"
proof -
  have "sourceTalkbacks (merge_init []) = []"
    by (simp add: merge_init_def)
  then have "merge_run [] sink es (merge_init []) = Some (merge_init [], [])"
    by (rule merge_run_nil_sources)
  then show ?thesis
    by (simp add: merge_life_def merge_def)
qed


text \<open>
  C2 (as stated): an operator that receives END with an error forwards END with that
  error and cancels its other sources. merge of two started sources, the first of which
  ends with the error 7: the sink receives its START and nothing else, and the second
  source is not cancelled.
\<close>

theorem merge_error_counterexample:
  "merge_life [Ext 1, Ext 2] (Ext 0)
     [MCb 0 0 (Fn (Ext 11)), MCb 1 0 (Fn (Ext 12)), MCb 0 2 (Num 7)]
   = Some [Call (Ext 1) 0 (Fn (MergeCb 0)), Call (Ext 2) 0 (Fn (MergeCb 1)),
           Call (Ext 0) 0 (Fn MergeTalkback)]"
  by (simp add: merge_life_def merge_def merge_init_def merge_cb_def Let_def upt_rec)

text \<open>
  C2 (amended): merge, combine and sample treat END with an error exactly as END
  without one. merge and combine count it, send the sink an END without payload when
  it was the last source to end and nothing otherwise, and call no talkback; sample
  cancels the other side and sends the sink an END without payload.
\<close>

theorem end_error_dropped:
  "merge_cb sources sink i 2 e s = merge_cb sources sink i 2 Undefined s
   \<and> (\<exists>s1. merge_cb sources sink i 2 e s =
        Some (s1, if endCount s + 1 = length sources then [Call sink 2 Undefined] else []))
   \<and> combine_cb sink i 2 e c = combine_cb sink i 2 Undefined c
   \<and> (\<exists>c1. combine_cb sink i 2 e c =
        Some (c1, if Ne c = 1 then [Call sink 2 Undefined] else []))
   \<and> sample_lcb pullable sink 2 e p =
        emit p (seq (invoke (ptalkback p) 2 Undefined) (Some [Call sink 2 Undefined]))
   \<and> sample_pcb sink 2 e p =
        emit p (seq (invoke (ltalkback p) 2 Undefined) (Some [Call sink 2 Undefined]))"
  by (simp add: merge_cb_def combine_cb_def sample_lcb_def sample_pcb_def Let_def seq_def
      split: option.splits)


text \<open>
  C3: scan without a seed, the scanned source invoked twice. The first channel
  forwards its first item 1 as it is and then \<open>reducer(1, 2)\<close>; it ends. The second
  channel starts with its own \<open>acc = undefined\<close>, but \<open>hasAcc\<close> is shared and already
  true: its first item 5 is not forwarded as it is, the sink receives
  \<open>reducer(undefined, 5)\<close>.
\<close>

theorem scan_second_invocation:
  "scan_life pair_up None (Ext 9)
     [SInvoke (Ext 0), SCb 0 0 (Fn (Ext 10)), SCb 0 1 (Num 1), SCb 0 1 (Num 2),
      SCb 0 2 Undefined,
      SInvoke (Ext 1), SCb 1 0 (Fn (Ext 11)), SCb 1 1 (Num 5)]
   = Some [Call (Ext 9) 0 (Fn (ScanCb 0)), Call (Ext 0) 0 (Fn (Ext 10)),
           Call (Ext 0) 1 (Num 1), Call (Ext 0) 1 (Arr [Num 1, Num 2]),
           Call (Ext 0) 2 Undefined,
           Call (Ext 9) 0 (Fn (ScanCb 1)), Call (Ext 1) 0 (Fn (Ext 11)),
           Call (Ext 1) 1 (Arr [Undefined, Num 5])]"
  by (simp add: scan_life_def scan_def scan_source_def scan_cb_def seed_value_def
      pair_up_def Let_def)


text \<open>
  C4 (as stated): an inner END with an error is forwarded and the outer source, still
  live, is cancelled. The outer source 9 has handed over the talkback 10 and the inner
  source 5, whose talkback is 15; the inner source ends with the error 7. The sink
  receives END with 7, and the talkback 10 of the outer source is never called.
\<close>

theorem flatten_error_counterexample:
  "flatten_life (Ext 9) (Ext 0)
     [FOuter 0 (Fn (Ext 10)), FOuter 1 (Fn (Ext 5)), FInner 0 (Fn (Ext 15)), FInner 2 (Num 7)]
   = Some [Call (Ext 9) 0 (Fn FlattenOuterCb), Call (Ext 0) 0 (Fn FlattenTalkback),
           Call (Ext 5) 0 (Fn FlattenInnerCb), Call (Ext 15) 1 Undefined,
           Call (Ext 0) 2 (Num 7)]"
  by (simp add: flatten_life_def flatten_def flatten_init_def flatten_outer_cb_def
      flatten_inner_cb_def and_call_def emit_def seq_def absent_def exists_val_def)

text \<open>
  C4 (amended): an END with an error, from the inner or from the outer source, is
  forwarded downstream at once as an END with that error; this is the only call made
  (the other side is not cancelled) and no variable changes.
\<close>

theorem flatten_error_forwarded:
  "e \<noteq> Undefined \<Longrightarrow>
     flatten_inner_cb sink 2 e s = Some (s, [Call sink 2 e])
     \<and> flatten_outer_cb sink 2 e s = Some (s, [Call sink 2 e])"
  by (simp add: flatten_inner_cb_def flatten_outer_cb_def absent_def exists_val_def)

theorem flatten_error_forwarded_witness:
  "Num 7 \<noteq> Undefined
   \<and> flatten_inner_cb (Ext 0) 2 (Num 7) flatten_init = Some (flatten_init, [Call (Ext 0) 2 (Num 7)])
   \<and> flatten_outer_cb (Ext 0) 2 (Num 7) flatten_init = Some (flatten_init, [Call (Ext 0) 2 (Num 7)])"
  using flatten_error_forwarded [of "Num 7" "Ext 0" flatten_init] by simp


subsection \<open>combine against the latest-value join\<close>

lemma is_fn_iff: "is_fn v = (\<exists>f. v = Fn f)"
  by (cases v) simp_all









lemma data_of_append: "data_of k (xs @ ys) = data_of k xs @ data_of k ys"
proof (induction xs)
  case Nil show ?case by simp
next
  case (Cons c xs)
  then show ?case by (cases c) simp
qed











subsection \<open>concat: one source after the other\<close>

lemma concat_run_expected:
  assumes n: "n = length sources"
  shows "concat_wf sink n j st tb es \<Longrightarrow> concat_i s = j
    \<Longrightarrow> (tb \<longrightarrow> (\<exists>f. sourceTalkback s = Fn f \<and> f \<noteq> sink))
    \<Longrightarrow> \<exists>s'. concat_run sources sink es s
          = Some (s', concat_expected sources sink (sourceTalkback s) es)"
proof (induction es arbitrary: s j st tb)
  case Nil
  show ?case by simp
next
  case (Cons e es)
  show ?case
  proof (cases e)
    case (KTalkback t d)
    from Cons.prems(1) have "tb \<and> concat_wf sink n j st tb es"
      unfolding KTalkback concat_wf.simps .
    then have tb: tb and wf: "concat_wf sink n j st tb es" by blast+
    with Cons.prems(3) obtain f where f: "sourceTalkback s = Fn f" by blast
    from Cons.IH [OF wf Cons.prems(2,3)] obtain s' where
      "concat_run sources sink es s = Some (s', concat_expected sources sink (sourceTalkback s) es)"
      by blast
    with KTalkback f show ?thesis
      by (simp add: concat_talkback_def emit_def)
  next
    case (KCb k t d)
    with Cons.prems(1) have k: "k = j" "j < n" by simp_all
    consider (start) "t = 0" | (data) "t = 1" | (fin) "t \<noteq> 0" "t \<noteq> 1" by blast
    then show ?thesis
    proof cases
      case start
      with Cons.prems(1) KCb obtain f where f: "d = Fn f" "f \<noteq> sink"
        and wf: "concat_wf sink n j True True es" by auto
      let ?s1 = "s\<lparr> sourceTalkback := d \<rparr>"
      have "\<exists>s'. concat_run sources sink es ?s1
          = Some (s', concat_expected sources sink (sourceTalkback ?s1) es)"
        using wf Cons.prems(2) f by (intro Cons.IH [of j True True]) simp_all
      then obtain s' where
        "concat_run sources sink es ?s1 = Some (s', concat_expected sources sink d es)"
        by auto
      with KCb start f k Cons.prems(2) show ?thesis
        by (simp add: concat_cb_def Let_def emit_def)
    next
      case data
      with Cons.prems(1) KCb have wf: "concat_wf sink n j True tb es" by simp
      from Cons.IH [OF wf Cons.prems(2,3)] obtain s' where
        "concat_run sources sink es s = Some (s', concat_expected sources sink (sourceTalkback s) es)"
        by blast
      with KCb data show ?thesis by (simp add: concat_cb_def)
    next
      case fin
      with Cons.prems(1) KCb have t: "t = 2" and wf: "concat_wf sink n (j + 1) False tb es"
        by (simp_all split: if_splits)
      let ?s1 = "s\<lparr> concat_i := concat_i s + 1 \<rparr>"
      have "\<exists>s'. concat_run sources sink es ?s1
          = Some (s', concat_expected sources sink (sourceTalkback ?s1) es)"
        using wf Cons.prems(2,3) by (intro Cons.IH [of "j + 1" False tb]) simp_all
      then obtain s' where
        "concat_run sources sink es ?s1 = Some (s', concat_expected sources sink (sourceTalkback s) es)"
        by auto
      with KCb t k Cons.prems(2) n show ?thesis
        by (auto simp: concat_cb_def concat_next_def)
    qed
  qed
qed

lemma concat_expected_data:
  "concat_wf sink n j st tb es \<Longrightarrow> (tb \<longrightarrow> (\<exists>f. v = Fn f \<and> f \<noteq> sink))
    \<Longrightarrow> data_of sink (concat_expected sources sink v es) = all_data es"
proof (induction es arbitrary: v j st tb)
  case Nil
  show ?case by simp
next
  case (Cons e es)
  show ?case
  proof (cases e)
    case (KTalkback t d)
    from Cons.prems(1) have "tb \<and> concat_wf sink n j st tb es"
      unfolding KTalkback concat_wf.simps .
    then have tb: tb and wf: "concat_wf sink n j st tb es" by blast+
    with Cons.prems(2) obtain f where f: "v = Fn f" "f \<noteq> sink" by blast
    from Cons.IH [OF wf Cons.prems(2)] KTalkback f show ?thesis by simp
  next
    case (KCb k t d)
    consider (start) "t = 0" | (data) "t = 1" | (fin) "t \<noteq> 0" "t \<noteq> 1" by blast
    then show ?thesis
    proof cases
      case start
      with Cons.prems(1) KCb obtain f where f: "d = Fn f" "f \<noteq> sink"
        and wf: "concat_wf sink n j True True es" by auto
      have "data_of sink (concat_expected sources sink d es) = all_data es"
        using wf f by (intro Cons.IH [of j True True]) simp_all
      with KCb start f show ?thesis by (simp add: data_of_append)
    next
      case data
      with Cons.prems(1) KCb have wf: "concat_wf sink n j True tb es" by simp
      from Cons.IH [OF wf Cons.prems(2)] KCb data show ?thesis by simp
    next
      case fin
      with Cons.prems(1) KCb have t: "t = 2" and wf: "concat_wf sink n (j + 1) False tb es"
        by (simp_all split: if_splits)
      from Cons.IH [OF wf Cons.prems(2)] KCb t show ?thesis by (simp add: data_of_append)
    qed
  qed
qed

lemma data_from_earlier:
  "concat_wf sink n j st tb es \<Longrightarrow> k < j \<Longrightarrow> data_from k es = []"
proof (induction es arbitrary: j st tb)
  case Nil
  show ?case by simp
next
  case (Cons e es)
  show ?case
  proof (cases e)
    case (KTalkback t d)
    from Cons.prems(1) have "tb \<and> concat_wf sink n j st tb es"
      unfolding KTalkback concat_wf.simps .
    then have "concat_wf sink n j st tb es" by blast
    from Cons.IH [OF this Cons.prems(2)] KTalkback show ?thesis by simp
  next
    case (KCb k' t d)
    with Cons.prems have k': "k' = j" by simp
    from Cons.prems KCb have "\<exists>j' st' tb'. concat_wf sink n j' st' tb' es \<and> k < j'"
      by (auto split: if_splits intro: less_SucI)
    then have "data_from k es = []" using Cons.IH by blast
    with KCb k' Cons.prems(2) show ?thesis by simp
  qed
qed

lemma all_data_by_source:
  "concat_wf sink n j st tb es \<Longrightarrow> j \<le> n
    \<Longrightarrow> all_data es = concat (map (\<lambda>k. data_from k es) [j ..< n])"
proof (induction es arbitrary: j st tb)
  case Nil
  show ?case by simp
next
  case (Cons e es)
  show ?case
  proof (cases e)
    case (KTalkback t d)
    from Cons.prems(1) have "tb \<and> concat_wf sink n j st tb es"
      unfolding KTalkback concat_wf.simps .
    then have "concat_wf sink n j st tb es" by blast
    from Cons.IH [OF this Cons.prems(2)] KTalkback show ?thesis by simp
  next
    case (KCb k t d)
    with Cons.prems(1) have k: "k = j" "j < n" by simp_all
    then have split: "[j ..< n] = j # [Suc j ..< n]" by (simp add: upt_conv_Cons)
    have later: "map (\<lambda>k. data_from k (e # es)) [Suc j ..< n] = map (\<lambda>k. data_from k es) [Suc j ..< n]"
      using KCb k by simp
    have head: "data_from j (e # es) = (if t = 1 then d # data_from j es else data_from j es)"
      using KCb k by simp
    have whole: "all_data (e # es) = (if t = 1 then d # all_data es else all_data es)"
      using KCb by simp
    consider (start) "t = 0" | (data) "t = 1" | (fin) "t \<noteq> 0" "t \<noteq> 1" by blast
    then show ?thesis
    proof cases
      case start
      with Cons.prems(1) KCb have wf: "concat_wf sink n j True True es" by simp
      from Cons.IH [OF wf Cons.prems(2)] have "all_data es = concat (map (\<lambda>k. data_from k es) [j ..< n])" .
      with start show ?thesis by (simp only: split list.map concat.simps later head whole) simp
    next
      case data
      with Cons.prems(1) KCb have wf: "concat_wf sink n j True tb es" by simp
      from Cons.IH [OF wf Cons.prems(2)] have "all_data es = concat (map (\<lambda>k. data_from k es) [j ..< n])" .
      with data show ?thesis by (simp only: split list.map concat.simps later head whole) simp
    next
      case fin
      with Cons.prems(1) KCb have t: "t = 2" and wf: "concat_wf sink n (j + 1) False tb es"
        by (simp_all split: if_splits)
      from k have "j + 1 \<le> n" by simp
      from Cons.IH [OF wf this]
      have ih: "all_data es = concat (map (\<lambda>k. data_from k es) [Suc j ..< n])" by simp
      have "data_from j es = []" using wf by (rule data_from_earlier) simp
      with ih t show ?thesis by (simp only: split list.map concat.simps later head whole) simp
    qed
  qed
qed

text \<open>
  C7: for concat over sources that keep to the protocol, the calls made are exactly the
  expected ones: a source is started only by the END of the source before it (the first
  one at the invocation), the sink receives START once, at the START of the first
  source, a later source is answered by a pull at its START, and the values the sink
  receives are the values of the first source, then those of the second, and so on.
  For \<open>concat(a, b)\<close> this is the sequence of a followed by the sequence of b.
\<close>

theorem concat_sequential:
  assumes "sources \<noteq> []" and "concat_wf sink (length sources) 0 False False es"
  shows "\<exists>cs. concat_life sources sink es = Some cs
     \<and> cs = Call (sources ! 0) 0 (Fn ConcatCb) # concat_expected sources sink Undefined es
     \<and> data_of sink cs = concat (map (\<lambda>j. data_from j es) [0 ..< length sources])"
proof -
  have init: "concat_op sources 0 sink = Some (concat_init, [Call (sources ! 0) 0 (Fn ConcatCb)])"
    using assms(1) by (simp add: concat_op_def concat_next_def concat_init_def)
  have "\<exists>s'. concat_run sources sink es concat_init
          = Some (s', concat_expected sources sink (sourceTalkback concat_init) es)"
    using assms(2) by (intro concat_run_expected [OF refl, where j = 0 and st = False and tb = False])
      (simp_all add: concat_init_def)
  then obtain s' where run: "concat_run sources sink es concat_init
          = Some (s', concat_expected sources sink Undefined es)"
    by (auto simp: concat_init_def)
  have "data_of sink (concat_expected sources sink Undefined es) = all_data es"
    using assms(2) by (rule concat_expected_data) simp
  also have "\<dots> = concat (map (\<lambda>j. data_from j es) [0 ..< length sources])"
    using assms(2) by (rule all_data_by_source) simp
  finally show ?thesis using init run by (simp add: concat_life_def)
qed

theorem concat_sequential_witness:
  "[Ext 1, Ext 2] \<noteq> []
   \<and> concat_wf (Ext 0) (length [Ext 1, Ext 2]) 0 False False
        [KCb 0 0 (Fn (Ext 11)), KTalkback 1 Undefined, KCb 0 1 (Num 1), KCb 0 1 (Num 2),
         KCb 0 2 Undefined, KCb 1 0 (Fn (Ext 12)), KCb 1 1 (Num 3), KCb 1 2 Undefined]
   \<and> (\<exists>cs. concat_life [Ext 1, Ext 2] (Ext 0)
        [KCb 0 0 (Fn (Ext 11)), KTalkback 1 Undefined, KCb 0 1 (Num 1), KCb 0 1 (Num 2),
         KCb 0 2 Undefined, KCb 1 0 (Fn (Ext 12)), KCb 1 1 (Num 3), KCb 1 2 Undefined]
        = Some cs
      \<and> cs = [Call (Ext 1) 0 (Fn ConcatCb), Call (Ext 0) 0 (Fn ConcatTalkback),
           Call (Ext 11) 1 Undefined, Call (Ext 0) 1 (Num 1), Call (Ext 0) 1 (Num 2),
           Call (Ext 2) 0 (Fn ConcatCb), Call (Ext 12) 1 Undefined, Call (Ext 0) 1 (Num 3),
           Call (Ext 0) 2 Undefined]
      \<and> data_of (Ext 0) cs = [Num 1, Num 2, Num 3])"
proof -
  let ?es = "[KCb 0 0 (Fn (Ext 11)), KTalkback 1 Undefined, KCb 0 1 (Num 1), KCb 0 1 (Num 2),
         KCb 0 2 Undefined, KCb 1 0 (Fn (Ext 12)), KCb 1 1 (Num 3), KCb 1 2 Undefined]"
  have a: "[Ext 1, Ext 2] \<noteq> []" by simp
  have b: "concat_wf (Ext 0) (length [Ext 1, Ext 2]) 0 False False ?es" by simp
  from concat_sequential [OF a b] obtain cs where
    life: "concat_life [Ext 1, Ext 2] (Ext 0) ?es = Some cs"
    and cs: "cs = Call ([Ext 1, Ext 2] ! 0) 0 (Fn ConcatCb)
               # concat_expected [Ext 1, Ext 2] (Ext 0) Undefined ?es"
    and dat: "data_of (Ext 0) cs
               = List.concat (map (\<lambda>j. data_from j ?es) [0 ..< length [Ext 1, Ext 2]])"
    by blast
  have c: "Call ([Ext 1, Ext 2] ! 0) 0 (Fn ConcatCb)
               # concat_expected [Ext 1, Ext 2] (Ext 0) Undefined ?es
        = [Call (Ext 1) 0 (Fn ConcatCb), Call (Ext 0) 0 (Fn ConcatTalkback),
           Call (Ext 11) 1 Undefined, Call (Ext 0) 1 (Num 1), Call (Ext 0) 1 (Num 2),
           Call (Ext 2) 0 (Fn ConcatCb), Call (Ext 12) 1 Undefined, Call (Ext 0) 1 (Num 3),
           Call (Ext 0) 2 Undefined]"
    by simp
  have d: "List.concat (map (\<lambda>j. data_from j ?es) [0 ..< length [Ext 1, Ext 2]])
        = [Num 1, Num 2, Num 3]"
    by (simp add: upt_rec)
  from cs c have cs1: "cs = [Call (Ext 1) 0 (Fn ConcatCb), Call (Ext 0) 0 (Fn ConcatTalkback),
           Call (Ext 11) 1 Undefined, Call (Ext 0) 1 (Num 1), Call (Ext 0) 1 (Num 2),
           Call (Ext 2) 0 (Fn ConcatCb), Call (Ext 12) 1 Undefined, Call (Ext 0) 1 (Num 3),
           Call (Ext 0) 2 Undefined]"
    by (rule trans)
  from dat d have dat1: "data_of (Ext 0) cs = [Num 1, Num 2, Num 3]" by (rule trans)
  from a b life cs1 dat1 show ?thesis by blast
qed

subsection \<open>share: the source is started once, every sink is served\<close>

lemma ins_append: "ins (a @ b) = ins a @ ins b"
  by (induction a rule: ins.induct) simp_all

lemma ups_append: "ups (a @ b) = ups a @ ups b"
  by (induction a rule: ups.induct) simp_all

lemma downs_append: "downs (a @ b) = downs a @ downs b"
  by (induction a rule: downs.induct) simp_all

lemma data_to_append: "data_to x (a @ b) = data_to x a @ data_to x b"
  by (induction x a rule: data_to.induct) simp_all

lemma attached_after_append:
  "attached_after a (xs @ ys) = attached_after (attached_after a xs) ys"
  by (induction xs arbitrary: a) simp_all

lemma handed_after_append:
  "handed_after tb (xs @ ys) = handed_after (handed_after tb xs) ys"
  by (induction xs arbitrary: tb) simp_all

lemma share_expected_append:
  "share_expected source a tb (xs @ ys) =
     share_expected source a tb xs
     @ share_expected source (attached_after a xs) (handed_after tb xs) ys"
  by (induction xs arbitrary: a tb) simp_all

lemma expected_of_append:
  "follows s s1 l1 \<Longrightarrow> expected_of source s (l1 @ l2) = expected_of source s l1 @ expected_of source s1 l2"
  by (simp add: expected_of_def follows_def ins_append share_expected_append)

lemma follows_append: "follows s s1 l1 \<Longrightarrow> follows s1 s2 l2 \<Longrightarrow> follows s s2 (l1 @ l2)"
  by (simp add: follows_def ins_append attached_after_append handed_after_append)

lemma follows_refl: "tb_fun s \<Longrightarrow> follows s s []"
  by (simp add: follows_def)

lemma rx_ok_nil: "tb_fun s \<Longrightarrow> rx_ok source (Rx []) s s []"
  by (simp add: rx_ok_def follows_def expected_of_def)

lemma rx_ok_cons:
  assumes e: "ev_ok source e rs s s1 l1" and r: "rx_ok source (Rx evs) s1 s2 l2"
  shows "rx_ok source (Rx ((e, rs) # evs)) s s2 (l1 @ l2)"
proof -
  from e have f1: "follows s s1 l1" by (simp add: ev_ok_def)
  from r have f2: "follows s1 s2 l2" by (simp add: rx_ok_def)
  note ex = expected_of_append [OF f1, of source l2]
  have "\<forall>b x. calm_rx b (Rx ((e, rs) # evs))
      \<longrightarrow> data_to x (l1 @ l2) = data_to x (expected_of source s (l1 @ l2))
          \<and> (b \<longrightarrow> data_to x (l1 @ l2) = [])"
  proof (intro allI impI)
    fix b x assume "calm_rx b (Rx ((e, rs) # evs))"
    then have c: "b \<longrightarrow> \<not> is_broadcast e" "calm_rxs (b \<or> is_broadcast e) rs" "calm_rx b (Rx evs)"
      by simp_all
    from e c have d1: "data_to x l1 = data_to x (expected_of source s l1)" "b \<longrightarrow> data_to x l1 = []"
      unfolding ev_ok_def by blast+
    from r c have d2: "data_to x l2 = data_to x (expected_of source s1 l2)" "b \<longrightarrow> data_to x l2 = []"
      unfolding rx_ok_def by blast+
    from d1 d2 show "data_to x (l1 @ l2) = data_to x (expected_of source s (l1 @ l2))
          \<and> (b \<longrightarrow> data_to x (l1 @ l2) = [])"
      by (simp add: ex data_to_append)
  qed
  moreover have "follows s s2 (l1 @ l2)" using f1 f2 by (rule follows_append)
  moreover have "ups (l1 @ l2) = ups (expected_of source s (l1 @ l2))"
    using e r by (simp add: ex ups_append ev_ok_def rx_ok_def)
  moreover have "mset (downs (l1 @ l2)) = mset (downs (expected_of source s (l1 @ l2)))"
    using e r by (simp add: ex downs_append ev_ok_def rx_ok_def)
  ultimately show ?thesis unfolding rx_ok_def by blast
qed

lemma do_ok_nil: "tb_fun s \<Longrightarrow> do_ok source [] rs s s []"
  by (simp add: do_ok_def follows_def expected_of_def)

lemma expected_of_skip: "ins [c] = [] \<Longrightarrow> expected_of source s (c # l) = expected_of source s l"
  by (cases c) (simp_all add: expected_of_def)

lemma follows_skip: "ins [c] = [] \<Longrightarrow> follows s s' l \<Longrightarrow> follows s s' (c # l)"
  by (cases c) (simp_all add: follows_def)

lemma no_data_tl: "no_data (c # cs) \<Longrightarrow> no_data cs"
  unfolding no_data_def
proof
  fix x assume a: "\<forall>x. data_to x (c # cs) = []"
  show "data_to x cs = []"
  proof (cases c)
    case (ToSink k)
    then obtain f t d where "k = Call f t d" by (cases k) auto
    with ToSink a [rule_format, of x] a [rule_format, of f] show ?thesis
      by (auto split: if_splits)
  qed (use a [rule_format, of x] in simp_all)
qed

lemma ups_Cons: "ups (c # l) = ups [c] @ ups l"
  using ups_append [of "[c]" l] by (simp only: append_Cons append_Nil)

lemma downs_Cons: "downs (c # l) = downs [c] @ downs l"
  using downs_append [of "[c]" l] by (simp only: append_Cons append_Nil)

lemma data_to_Cons: "data_to x (c # l) = data_to x [c] @ data_to x l"
  using data_to_append [of x "[c]" l] by (simp only: append_Cons append_Nil)

lemma do_ok_cons:
  assumes r: "rx_ok source r s s1 l1" and d: "do_ok source cs rs s1 s2 l2"
    and c: "ins [c] = []" and u: "ups cs = []"
  shows "do_ok source (c # cs) (r # rs) s s2 (c # l1 @ l2)"
proof -
  from r have f1: "follows s s1 l1" by (simp add: rx_ok_def)
  from d have f2: "follows s1 s2 l2" by (simp add: do_ok_def)
  have ex: "expected_of source s (c # l1 @ l2) = expected_of source s l1 @ expected_of source s1 l2"
    using expected_of_append [OF f1] c by (simp add: expected_of_skip)
  note app = ups_Cons [of c] downs_Cons [of c] data_to_Cons [of _ c]
  have "follows s s2 (c # l1 @ l2)"
    using c follows_append [OF f1 f2] by (rule follows_skip)
  moreover have "ups (c # l1 @ l2) = ups (c # cs) @ ups (expected_of source s (c # l1 @ l2))"
    using r d u by (simp add: ex app(1) [of "l1 @ l2"] app(1) [of cs] ups_append rx_ok_def do_ok_def)
  moreover have "mset (downs (c # l1 @ l2))
      = mset (downs (c # cs)) + mset (downs (expected_of source s (c # l1 @ l2)))"
    using r d by (simp add: ex app(2) [of "l1 @ l2"] app(2) [of cs] downs_append rx_ok_def do_ok_def)
  moreover have "\<forall>b x. calm_rxs b (r # rs) \<longrightarrow> (b \<or> no_data (c # cs))
      \<longrightarrow> data_to x (c # l1 @ l2) = data_to x (c # cs) @ data_to x (expected_of source s (c # l1 @ l2))
          \<and> (b \<longrightarrow> data_to x (expected_of source s (c # l1 @ l2)) = [])"
  proof (intro allI impI)
    fix b x assume calm: "calm_rxs b (r # rs)" and bn: "b \<or> no_data (c # cs)"
    from calm have c1: "calm_rx b r" and c2: "calm_rxs b rs" by simp_all
    from bn have bn2: "b \<or> no_data cs" using no_data_tl by blast
    from r c1 have d1: "data_to x l1 = data_to x (expected_of source s l1)" "b \<longrightarrow> data_to x l1 = []"
      unfolding rx_ok_def by blast+
    from d c2 bn2 have d2: "data_to x l2 = data_to x cs @ data_to x (expected_of source s1 l2)"
      "b \<longrightarrow> data_to x (expected_of source s1 l2) = []"
      unfolding do_ok_def by blast+
    have comm: "data_to x l1 @ data_to x cs = data_to x cs @ data_to x l1"
    proof (cases b)
      case True
      with d1 show ?thesis by simp
    next
      case False
      with bn2 have "data_to x cs = []" by (simp add: no_data_def)
      then show ?thesis by simp
    qed
    have "data_to x (c # l1 @ l2)
        = data_to x [c] @ (data_to x l1 @ data_to x cs) @ data_to x (expected_of source s1 l2)"
      using d2 by (simp add: app(3) [of x "l1 @ l2"] data_to_append)
    also have "\<dots> = data_to x [c] @ (data_to x cs @ data_to x l1) @ data_to x (expected_of source s1 l2)"
      by (simp only: comm)
    also have "\<dots> = data_to x (c # cs) @ data_to x (expected_of source s (c # l1 @ l2))"
      using d1 by (simp add: ex app(3) [of x cs] data_to_append)
    finally have g1: "data_to x (c # l1 @ l2)
        = data_to x (c # cs) @ data_to x (expected_of source s (c # l1 @ l2))" .
    have g2: "b \<longrightarrow> data_to x (expected_of source s (c # l1 @ l2)) = []"
      using d1 d2 by (simp add: ex data_to_append)
    from g1 g2 show "data_to x (c # l1 @ l2) = data_to x (c # cs) @ data_to x (expected_of source s (c # l1 @ l2))
          \<and> (b \<longrightarrow> data_to x (expected_of source s (c # l1 @ l2)) = [])"
      by blast
  qed
  ultimately show ?thesis unfolding do_ok_def by blast
qed

lemma do_ok_cons0:
  assumes d: "do_ok source cs [] s s1 l" and c: "ins [c] = []"
  shows "do_ok source (c # cs) [] s s1 (c # l)"
proof -
  from d have f: "follows s s1 l" by (simp add: do_ok_def)
  have ex: "expected_of source s (c # l) = expected_of source s l"
    using c by (rule expected_of_skip)
  note app = ups_Cons [of c] downs_Cons [of c] data_to_Cons [of _ c]
  have "follows s s1 (c # l)" using c f by (rule follows_skip)
  moreover have "ups (c # l) = ups (c # cs) @ ups (expected_of source s (c # l))"
    using d by (simp add: ex app(1) [of l] app(1) [of cs] do_ok_def)
  moreover have "mset (downs (c # l)) = mset (downs (c # cs)) + mset (downs (expected_of source s (c # l)))"
    using d by (simp add: ex app(2) [of l] app(2) [of cs] do_ok_def)
  moreover have "\<forall>b x. calm_rxs b [] \<longrightarrow> (b \<or> no_data (c # cs))
      \<longrightarrow> data_to x (c # l) = data_to x (c # cs) @ data_to x (expected_of source s (c # l))
          \<and> (b \<longrightarrow> data_to x (expected_of source s (c # l)) = [])"
  proof (intro allI impI)
    fix b x assume bn: "b \<or> no_data (c # cs)"
    then have "b \<or> no_data cs" using no_data_tl by blast
    with d have "data_to x l = data_to x cs @ data_to x (expected_of source s l)"
      "b \<longrightarrow> data_to x (expected_of source s l) = []"
      unfolding do_ok_def by (simp_all)
    then show "data_to x (c # l) = data_to x (c # cs) @ data_to x (expected_of source s (c # l))
          \<and> (b \<longrightarrow> data_to x (expected_of source s (c # l)) = [])"
      by (simp add: ex app(3) [of x l] app(3) [of x cs])
  qed
  ultimately show ?thesis unfolding do_ok_def by blast
qed

lemma answer_ins: "ins (share_answer source a tb e) = []"
proof (cases e)
  case (HAttach k)
  then show ?thesis by simp
next
  case (HTalkback k t d)
  then show ?thesis by (cases tb) simp_all
next
  case (HCb k t d)
  have "ins (map (\<lambda>x. ToSink (Call x t d)) a) = []" by (induction a) simp_all
  with HCb show ?thesis by simp
qed

lemma answer_ups:
  "length (share_answer source a tb e) \<le> 1 \<or> ups (share_answer source a tb e) = []"
proof (cases e)
  case (HAttach k)
  then show ?thesis by simp
next
  case (HTalkback k t d)
  then show ?thesis by (cases tb) simp_all
next
  case (HCb k t d)
  have "ups (map (\<lambda>x. ToSink (Call x t d)) a) = []" by (induction a) simp_all
  with HCb show ?thesis by simp
qed

lemma answer_no_data: "\<not> is_broadcast e \<Longrightarrow> no_data (share_answer source a tb e)"
proof (cases e)
  case (HAttach k)
  then show ?thesis by (simp add: no_data_def)
next
  case (HTalkback k t d)
  then show ?thesis by (cases tb) (simp_all add: no_data_def)
next
  case (HCb k t d)
  assume "\<not> is_broadcast e"
  with HCb show ?thesis by (simp add: no_data_def)
qed

lemma ev_ok_intro:
  assumes d: "do_ok source cs rs s0 s1 l"
    and cs: "cs = share_answer source (sinks s) (share_sourceTalkback s) e"
    and a: "sinks s0 = attached (sinks s) e"
    and h: "share_sourceTalkback s0 = handed (share_sourceTalkback s) e"
  shows "ev_ok source e rs s s1 (In e # l)"
proof -
  from d have f: "follows s0 s1 l" by (simp add: do_ok_def)
  have ex: "expected_of source s (In e # l) = cs @ expected_of source s0 l"
    using cs a h by (simp add: expected_of_def)
  have "follows s s1 (In e # l)" using f a h by (simp add: follows_def)
  moreover have "ups (In e # l) = ups (expected_of source s (In e # l))"
    using d by (simp add: ex ups_append do_ok_def)
  moreover have "mset (downs (In e # l)) = mset (downs (expected_of source s (In e # l)))"
    using d by (simp add: ex downs_append do_ok_def)
  moreover have "\<forall>b x. (b \<longrightarrow> \<not> is_broadcast e) \<longrightarrow> calm_rxs (b \<or> is_broadcast e) rs
      \<longrightarrow> data_to x (In e # l) = data_to x (expected_of source s (In e # l))
          \<and> (b \<longrightarrow> data_to x (In e # l) = [])"
  proof (intro allI impI)
    fix b x assume b: "b \<longrightarrow> \<not> is_broadcast e" and calm: "calm_rxs (b \<or> is_broadcast e) rs"
    have nd: "(b \<or> is_broadcast e) \<or> no_data cs"
      using answer_no_data [of e source "sinks s" "share_sourceTalkback s"] cs by blast
    from d calm nd have d1: "data_to x l = data_to x cs @ data_to x (expected_of source s0 l)"
      and d2: "(b \<or> is_broadcast e) \<longrightarrow> data_to x (expected_of source s0 l) = []"
      unfolding do_ok_def by blast+
    have "b \<longrightarrow> data_to x cs = []"
      using b answer_no_data [of e source "sinks s" "share_sourceTalkback s"] cs
      by (auto simp: no_data_def)
    with d1 d2 show "data_to x (In e # l) = data_to x (expected_of source s (In e # l))
          \<and> (b \<longrightarrow> data_to x (In e # l) = [])"
      by (simp add: ex data_to_append)
  qed
  ultimately show ?thesis unfolding ev_ok_def by blast
qed

lemma shared_spec:
  "shared source 0 k s = (s\<lparr> sinks := attached (sinks s) (HAttach k) \<rparr>,
     share_answer source (sinks s) tb (HAttach k))"
  by (simp add: shared_def Let_def)

lemma talkback_spec:
  "share_sourceTalkback s = Fn f \<Longrightarrow>
   share_talkback k t d s = Some (s\<lparr> sinks := attached (sinks s) (HTalkback k t d) \<rparr>,
     share_answer source (sinks s) (Fn f) (HTalkback k t d))"
  by (simp add: share_talkback_def Let_def)

lemma cb_spec:
  "share_cb k t d s = (s\<lparr> share_sourceTalkback := handed (share_sourceTalkback s) (HCb k t d) \<rparr>,
     share_answer source (sinks s) tb (HCb k t d))"
  by (simp add: share_cb_def)

lemma share_run_ok:
  shows "live_rx r \<Longrightarrow> tb_fun s
      \<Longrightarrow> \<exists>s' l. share_rx source r s = Some (s', l) \<and> rx_ok source r s s' l"
    and "live_event e \<Longrightarrow> live_rxs rs \<Longrightarrow> tb_fun s
      \<Longrightarrow> \<exists>s' l. share_ev source e rs s = Some (s', l) \<and> ev_ok source e rs s s' l"
    and "ins cs = [] \<Longrightarrow> length cs \<le> 1 \<or> ups cs = [] \<Longrightarrow> live_rxs rs \<Longrightarrow> tb_fun s
      \<Longrightarrow> \<exists>s' l. share_do source cs rs s = Some (s', l) \<and> do_ok source cs rs s s' l"
proof (induction source r s and source e rs s and source cs rs s
    rule: share_rx_share_ev_share_do.induct)
  case (1 source s)
  then show ?case by (simp add: rx_ok_nil)
next
  case (2 source e rs evs s)
  from "2.prems" have le: "live_event e" "live_rxs rs" and lr: "live_rx (Rx evs)" by simp_all
  from "2.IH"(1) [OF le "2.prems"(2)] obtain s1 l1 where
    ev: "share_ev source e rs s = Some (s1, l1)" and ok1: "ev_ok source e rs s s1 l1" by blast
  from ok1 have "tb_fun s1" by (simp add: ev_ok_def follows_def)
  from "2.IH"(2) [OF ev refl lr this] obtain s2 l2 where
    rx: "share_rx source (Rx evs) s1 = Some (s2, l2)" and ok2: "rx_ok source (Rx evs) s1 s2 l2"
    by blast
  from ev rx rx_ok_cons [OF ok1 ok2] show ?case by simp
next
  case (3 source k rs s)
  let ?tb = "share_sourceTalkback s"
  let ?cs = "share_answer source (sinks s) ?tb (HAttach k)"
  let ?s0 = "s\<lparr> sinks := attached (sinks s) (HAttach k) \<rparr>"
  have sp: "shared source 0 k s = (?s0, ?cs)" by (rule shared_spec)
  have "tb_fun ?s0" using "3.prems"(3) by (simp add: tb_fun_def is_fn_iff)
  with "3.IH" [unfolded sp fst_conv snd_conv, OF answer_ins answer_ups "3.prems"(2)]
  obtain s1 l where d: "share_do source ?cs rs ?s0 = Some (s1, l)" and ok: "do_ok source ?cs rs ?s0 s1 l"
    by blast
  have "ev_ok source (HAttach k) rs s s1 (In (HAttach k) # l)"
    using ok by (rule ev_ok_intro) simp_all
  with d sp show ?case by simp
next
  case (4 source k t d rs s)
  from "4.prems"(3) obtain f where f: "share_sourceTalkback s = Fn f" by (auto simp: tb_fun_def is_fn_iff)
  let ?cs = "share_answer source (sinks s) (Fn f) (HTalkback k t d)"
  let ?s0 = "s\<lparr> sinks := attached (sinks s) (HTalkback k t d) \<rparr>"
  have sp: "share_talkback k t d s = Some (?s0, ?cs)" using f by (rule talkback_spec)
  have "tb_fun ?s0" using f by (simp add: tb_fun_def is_fn_iff)
  with "4.IH" [OF sp refl answer_ins answer_ups "4.prems"(2)]
  obtain s1 l where d: "share_do source ?cs rs ?s0 = Some (s1, l)" and ok: "do_ok source ?cs rs ?s0 s1 l"
    by blast
  have "ev_ok source (HTalkback k t d) rs s s1 (In (HTalkback k t d) # l)"
    using ok by (rule ev_ok_intro) (simp_all add: f)
  with d sp show ?case by simp
next
  case (5 source k t d rs s)
  let ?tb = "share_sourceTalkback s"
  let ?cs = "share_answer source (sinks s) ?tb (HCb k t d)"
  let ?s0 = "s\<lparr> share_sourceTalkback := handed ?tb (HCb k t d) \<rparr>"
  have sp: "share_cb k t d s = (?s0, ?cs)" by (rule cb_spec)
  from "5.prems"(1) have t2: "t \<noteq> 2" and fn: "t = 0 \<longrightarrow> (\<exists>f. d = Fn f)"
    by (simp_all add: is_fn_iff)
  have "tb_fun ?s0" using "5.prems"(3) fn by (auto simp: tb_fun_def is_fn_iff)
  with "5.IH" [unfolded sp fst_conv snd_conv, OF answer_ins answer_ups "5.prems"(2)]
  obtain s1 l where d: "share_do source ?cs rs ?s0 = Some (s1, l)" and ok: "do_ok source ?cs rs ?s0 s1 l"
    by blast
  have "ev_ok source (HCb k t d) rs s s1 (In (HCb k t d) # l)"
    using ok by (rule ev_ok_intro) simp_all
  with d sp t2 show ?case by (simp add: share_cb_end_def)
next
  case (6 source rs s)
  then show ?case by (simp add: do_ok_nil)
next
  case (7 source c cs s)
  from "7.prems"(1) have c: "ins [c] = []" and cs: "ins cs = []" by (cases c; simp)+
  from "7.prems"(2) have u: "length cs \<le> 1 \<or> ups cs = []"
    using ups_Cons [of c cs] by auto
  from "7.IH" [OF cs u "7.prems"(3,4)] obtain s1 l where
    d: "share_do source cs [] s = Some (s1, l)" and ok: "do_ok source cs [] s s1 l" by blast
  from d do_ok_cons0 [OF ok c] show ?case by simp
next
  case (8 source c cs r rs s)
  from "8.prems"(1) have c: "ins [c] = []" and cs: "ins cs = []" by (cases c; simp)+
  from "8.prems"(2) have u0: "ups cs = []"
    using ups_Cons [of c cs] by auto
  then have u: "length cs \<le> 1 \<or> ups cs = []" by simp
  from "8.prems"(3) have lr: "live_rx r" "live_rxs rs" by simp_all
  from "8.IH"(1) [OF lr(1) "8.prems"(4)] obtain s1 l1 where
    rx: "share_rx source r s = Some (s1, l1)" and ok1: "rx_ok source r s s1 l1" by blast
  from ok1 have "tb_fun s1" by (simp add: rx_ok_def follows_def)
  from "8.IH"(2) [OF rx refl cs u lr(2) this] obtain s2 l2 where
    d: "share_do source cs rs s1 = Some (s2, l2)" and ok2: "do_ok source cs rs s1 s2 l2" by blast
  from rx d do_ok_cons [OF ok1 ok2 c u0] show ?case by simp
qed

lemma share_log_eq:
  shows "live_rx r \<Longrightarrow> tb_fun s \<Longrightarrow> share_rx source r s = Some (s', l)
      \<Longrightarrow> l = share_log_rx source (sinks s) (share_sourceTalkback s) r"
    and "live_event e \<Longrightarrow> live_rxs rs \<Longrightarrow> tb_fun s \<Longrightarrow> share_ev source e rs s = Some (s', l)
      \<Longrightarrow> l = share_log_ev source (sinks s) (share_sourceTalkback s) e rs"
    and "ins cs = [] \<Longrightarrow> length cs \<le> 1 \<or> ups cs = [] \<Longrightarrow> live_rxs rs \<Longrightarrow> tb_fun s
      \<Longrightarrow> share_do source cs rs s = Some (s', l)
      \<Longrightarrow> l = share_log_do source (sinks s) (share_sourceTalkback s) cs rs"
proof (induction source r s and source e rs s and source cs rs s arbitrary: s' l and s' l and s' l
    rule: share_rx_share_ev_share_do.induct)
  case (1 source s)
  then show ?case by simp
next
  case (2 source e rs evs s)
  from "2.prems"(1) have le: "live_event e" "live_rxs rs" and lr: "live_rx (Rx evs)" by simp_all
  from "2.prems"(3) obtain s1 l1 l2 where
    ev: "share_ev source e rs s = Some (s1, l1)"
    and rx: "share_rx source (Rx evs) s1 = Some (s', l2)" and l: "l = l1 @ l2"
    by (auto split: option.splits)
  from share_run_ok(2) [OF le "2.prems"(2), of source] ev have f: "follows s s1 l1"
    by (auto simp: ev_ok_def)
  from "2.IH"(1) [OF le "2.prems"(2) ev]
  have l1: "l1 = share_log_ev source (sinks s) (share_sourceTalkback s) e rs" .
  from f have "tb_fun s1" by (simp add: follows_def)
  from "2.IH"(2) [OF ev refl lr this rx]
  have "l2 = share_log_rx source (sinks s1) (share_sourceTalkback s1) (Rx evs)" .
  with f l l1 show ?case by (simp add: follows_def del: share_log_ev.simps)
next
  case (3 source k rs s)
  let ?tb = "share_sourceTalkback s"
  let ?cs = "share_answer source (sinks s) ?tb (HAttach k)"
  let ?s0 = "s\<lparr> sinks := attached (sinks s) (HAttach k) \<rparr>"
  have sp: "shared source 0 k s = (?s0, ?cs)" by (rule shared_spec)
  from "3.prems"(4) sp obtain l0 where
    d: "share_do source ?cs rs ?s0 = Some (s', l0)" and l: "l = In (HAttach k) # l0"
    by (auto split: option.splits)
  have "tb_fun ?s0" using "3.prems"(3) by (simp add: tb_fun_def is_fn_iff)
  from "3.IH" [unfolded sp fst_conv snd_conv, OF answer_ins answer_ups "3.prems"(2) this d]
  show ?case using l by simp
next
  case (4 source k t d rs s)
  from "4.prems"(3) obtain f where f: "share_sourceTalkback s = Fn f" by (auto simp: tb_fun_def is_fn_iff)
  let ?cs = "share_answer source (sinks s) (Fn f) (HTalkback k t d)"
  let ?s0 = "s\<lparr> sinks := attached (sinks s) (HTalkback k t d) \<rparr>"
  have sp: "share_talkback k t d s = Some (?s0, ?cs)" using f by (rule talkback_spec)
  from "4.prems"(4) sp obtain l0 where
    d: "share_do source ?cs rs ?s0 = Some (s', l0)" and l: "l = In (HTalkback k t d) # l0"
    by (auto split: option.splits)
  have "tb_fun ?s0" using f by (simp add: tb_fun_def is_fn_iff)
  from "4.IH" [OF sp refl answer_ins answer_ups "4.prems"(2) this d]
  show ?case using l f by simp
next
  case (5 source k t d rs s)
  let ?tb = "share_sourceTalkback s"
  let ?cs = "share_answer source (sinks s) ?tb (HCb k t d)"
  let ?s0 = "s\<lparr> share_sourceTalkback := handed ?tb (HCb k t d) \<rparr>"
  have sp: "share_cb k t d s = (?s0, ?cs)" by (rule cb_spec)
  from "5.prems"(1) have t2: "t \<noteq> 2" and fn: "t = 0 \<longrightarrow> (\<exists>f. d = Fn f)"
    by (simp_all add: is_fn_iff)
  from "5.prems"(4) sp obtain s1 l0 where
    d: "share_do source ?cs rs ?s0 = Some (s1, l0)" and l: "l = In (HCb k t d) # l0"
    by (auto split: option.splits)
  have "tb_fun ?s0" using "5.prems"(3) fn by (auto simp: tb_fun_def is_fn_iff)
  from "5.IH" [unfolded sp fst_conv snd_conv, OF answer_ins answer_ups "5.prems"(2) this d]
  show ?case using l by simp
next
  case (6 source rs s)
  then show ?case by simp
next
  case (7 source c cs s)
  from "7.prems"(1) have c: "ins [c] = []" and cs: "ins cs = []" by (cases c; simp)+
  from "7.prems"(2) have u: "length cs \<le> 1 \<or> ups cs = []"
    using ups_Cons [of c cs] by auto
  from "7.prems"(5) obtain l0 where
    d: "share_do source cs [] s = Some (s', l0)" and l: "l = c # l0"
    by (auto split: option.splits)
  from "7.IH" [OF cs u "7.prems"(3,4) d] l show ?case by simp
next
  case (8 source c cs r rs s)
  from "8.prems"(1) have c: "ins [c] = []" and cs: "ins cs = []" by (cases c; simp)+
  from "8.prems"(2) have u0: "ups cs = []"
    using ups_Cons [of c cs] by auto
  then have u: "length cs \<le> 1 \<or> ups cs = []" by simp
  from "8.prems"(3) have lr: "live_rx r" "live_rxs rs" by simp_all
  from "8.prems"(5) obtain s1 l1 l2 where
    rx: "share_rx source r s = Some (s1, l1)"
    and d: "share_do source cs rs s1 = Some (s', l2)" and l: "l = c # l1 @ l2"
    by (auto split: option.splits)
  from share_run_ok(1) [OF lr(1) "8.prems"(4), of source] rx have f: "follows s s1 l1"
    by (auto simp: rx_ok_def)
  from "8.IH"(1) [OF lr(1) "8.prems"(4) rx]
  have l1: "l1 = share_log_rx source (sinks s) (share_sourceTalkback s) r" .
  from f have "tb_fun s1" by (simp add: follows_def)
  from "8.IH"(2) [OF rx refl cs u lr(2) this d]
  have "l2 = share_log_do source (sinks s1) (share_sourceTalkback s1) cs rs" .
  with f l l1 show ?case by (simp add: follows_def)
qed

text \<open>
  C8 (as stated): every attached sink receives the same DATA in the order of delivery.
  Sinks 1 and 2 are attached to a source that answers a pull inside the pull. Sink 2
  pulls and the source sends 0; sink 1, called first with 0, pulls from inside its
  callback, and the source sends 1 at once: the callback of share is entered again and
  sends 1 to both sinks before the first activation goes on and sends 0 to sink 2.
  Sink 1 receives 0, 1 and sink 2 receives 1, 0.
\<close>

theorem share_order_counterexample:
  "share_rx (Ext 8)
     (Rx [(HAttach (Ext 1), [Rx [(HCb (Ext 1) 0 (Fn (Ext 9)), [])]]),
          (HAttach (Ext 2), []),
          (HTalkback (Ext 2) 1 Undefined,
             [Rx [(HCb (Ext 1) 1 (Num 0),
                    [Rx [(HTalkback (Ext 1) 1 Undefined,
                           [Rx [(HCb (Ext 1) 1 (Num 1), [])]])]])]])])
     share
   = Some (\<lparr> sinks = [Ext 1, Ext 2], share_sourceTalkback = Fn (Ext 9) \<rparr>,
      [In (HAttach (Ext 1)), ToSource (Call (Ext 8) 0 (Fn (ShareCb (Ext 1)))),
       In (HCb (Ext 1) 0 (Fn (Ext 9))), ToSink (Call (Ext 1) 0 (Fn (ShareTalkback (Ext 1)))),
       In (HAttach (Ext 2)), ToSink (Call (Ext 2) 0 (Fn (ShareTalkback (Ext 2)))),
       In (HTalkback (Ext 2) 1 Undefined), ToSource (Call (Ext 9) 1 Undefined),
       In (HCb (Ext 1) 1 (Num 0)), ToSink (Call (Ext 1) 1 (Num 0)),
       In (HTalkback (Ext 1) 1 Undefined), ToSource (Call (Ext 9) 1 Undefined),
       In (HCb (Ext 1) 1 (Num 1)), ToSink (Call (Ext 1) 1 (Num 1)),
       ToSink (Call (Ext 2) 1 (Num 1)), ToSink (Call (Ext 2) 1 (Num 0))])
   \<and> data_to (Ext 1)
      [In (HAttach (Ext 1)), ToSource (Call (Ext 8) 0 (Fn (ShareCb (Ext 1)))),
       In (HCb (Ext 1) 0 (Fn (Ext 9))), ToSink (Call (Ext 1) 0 (Fn (ShareTalkback (Ext 1)))),
       In (HAttach (Ext 2)), ToSink (Call (Ext 2) 0 (Fn (ShareTalkback (Ext 2)))),
       In (HTalkback (Ext 2) 1 Undefined), ToSource (Call (Ext 9) 1 Undefined),
       In (HCb (Ext 1) 1 (Num 0)), ToSink (Call (Ext 1) 1 (Num 0)),
       In (HTalkback (Ext 1) 1 Undefined), ToSource (Call (Ext 9) 1 Undefined),
       In (HCb (Ext 1) 1 (Num 1)), ToSink (Call (Ext 1) 1 (Num 1)),
       ToSink (Call (Ext 2) 1 (Num 1)), ToSink (Call (Ext 2) 1 (Num 0))]
     = [Num 0, Num 1]
   \<and> data_to (Ext 2)
      [In (HAttach (Ext 1)), ToSource (Call (Ext 8) 0 (Fn (ShareCb (Ext 1)))),
       In (HCb (Ext 1) 0 (Fn (Ext 9))), ToSink (Call (Ext 1) 0 (Fn (ShareTalkback (Ext 1)))),
       In (HAttach (Ext 2)), ToSink (Call (Ext 2) 0 (Fn (ShareTalkback (Ext 2)))),
       In (HTalkback (Ext 2) 1 Undefined), ToSource (Call (Ext 9) 1 Undefined),
       In (HCb (Ext 1) 1 (Num 0)), ToSink (Call (Ext 1) 1 (Num 0)),
       In (HTalkback (Ext 1) 1 Undefined), ToSource (Call (Ext 9) 1 Undefined),
       In (HCb (Ext 1) 1 (Num 1)), ToSink (Call (Ext 1) 1 (Num 1)),
       ToSink (Call (Ext 2) 1 (Num 1)), ToSink (Call (Ext 2) 1 (Num 0))]
     = [Num 1, Num 0]"
  by (simp add: share_def shared_def share_talkback_def share_cb_def share_cb_end_def Let_def)

text \<open>
  C8 (amended): the first sink that attaches starts the source, whose START hands over
  its talkback and is passed on to that sink. From then on, as long as the source does
  not end, whatever the surroundings do and however their calls are nested: the run
  returns, and its log is the expected one; \<open>sinks\<close> holds the sinks that have
  attached and not detached since; the source and its talkback are called exactly as
  expected and in that order, so the source is started only by a sink that attaches
  while none is attached, however many attach, its talkback gets an END exactly when
  a detach leaves no sink attached, and the sink that attaches after that starts the
  source anew; the sinks are called exactly as expected, as a multiset: every message
  of the source goes once to every sink attached when it arrives, and a sink that
  attaches is sent START and nothing from before (no variable of share holds a past
  value); and when no sink makes the source send from inside a broadcast, every sink
  receives its DATA in the order in which the source sent them. Only the order in
  which a sink receives two messages can differ from the order in which they were
  sent, when one broadcast is nested in another.
\<close>

theorem share_live:
  "share_rx source (Rx [(HAttach k, [Rx [(HCb k 0 (Fn f), [])]])]) share
     = Some (\<lparr> sinks = [k], share_sourceTalkback = Fn f \<rparr>,
             [In (HAttach k), ToSource (Call source 0 (Fn (ShareCb k))),
              In (HCb k 0 (Fn f)), ToSink (Call k 0 (Fn (ShareTalkback k)))])
   \<and> (live_rx r \<longrightarrow> share_sourceTalkback s = Fn f \<longrightarrow>
        (\<exists>s' l. share_rx source r s = Some (s', l)
           \<and> l = share_log_rx source (sinks s) (Fn f) r
           \<and> sinks s' = attached_after (sinks s) (ins l)
           \<and> ups l = ups (share_expected source (sinks s) (Fn f) (ins l))
           \<and> mset (downs l) = mset (downs (share_expected source (sinks s) (Fn f) (ins l)))
           \<and> (calm_rx False r \<longrightarrow>
                (\<forall>x. data_to x l = data_to x (share_expected source (sinks s) (Fn f) (ins l))))))"
proof (intro conjI impI)
  show "share_rx source (Rx [(HAttach k, [Rx [(HCb k 0 (Fn f), [])]])]) share
     = Some (\<lparr> sinks = [k], share_sourceTalkback = Fn f \<rparr>,
             [In (HAttach k), ToSource (Call source 0 (Fn (ShareCb k))),
              In (HCb k 0 (Fn f)), ToSink (Call k 0 (Fn (ShareTalkback k)))])"
    by (simp add: share_def shared_def share_cb_def share_cb_end_def Let_def)
next
  assume live: "live_rx r" and tb: "share_sourceTalkback s = Fn f"
  then have tf: "tb_fun s" by (simp add: tb_fun_def is_fn_iff)
  from share_run_ok(1) [OF live tf] obtain s' l where
    run: "share_rx source r s = Some (s', l)" and ok: "rx_ok source r s s' l" by blast
  from share_log_eq(1) [OF live tf run] tb
  have lg: "l = share_log_rx source (sinks s) (Fn f) r" by simp
  from ok tb have a: "sinks s' = attached_after (sinks s) (ins l)"
    and u: "ups l = ups (share_expected source (sinks s) (Fn f) (ins l))"
    and m: "mset (downs l) = mset (downs (share_expected source (sinks s) (Fn f) (ins l)))"
    and d: "calm_rx False r \<longrightarrow>
              (\<forall>x. data_to x l = data_to x (share_expected source (sinks s) (Fn f) (ins l)))"
    by (simp_all add: rx_ok_def follows_def expected_of_def)
  from run lg a u m d
  show "\<exists>s' l. share_rx source r s = Some (s', l)
           \<and> l = share_log_rx source (sinks s) (Fn f) r
           \<and> sinks s' = attached_after (sinks s) (ins l)
           \<and> ups l = ups (share_expected source (sinks s) (Fn f) (ins l))
           \<and> mset (downs l) = mset (downs (share_expected source (sinks s) (Fn f) (ins l)))
           \<and> (calm_rx False r \<longrightarrow>
                (\<forall>x. data_to x l = data_to x (share_expected source (sinks s) (Fn f) (ins l))))"
    by blast
qed

theorem share_live_witness:
  "live_rx (Rx [(HAttach (Ext 2), []),
          (HTalkback (Ext 2) 1 Undefined,
             [Rx [(HCb (Ext 1) 1 (Num 5), [Rx [(HTalkback (Ext 1) 2 Undefined, [])]])]]),
          (HTalkback (Ext 2) 2 Undefined, []),
          (HAttach (Ext 3), [Rx [(HCb (Ext 3) 0 (Fn (Ext 10)), [])]]),
          (HCb (Ext 3) 1 (Num 6), [])])
   \<and> calm_rx False (Rx [(HAttach (Ext 2), []),
          (HTalkback (Ext 2) 1 Undefined,
             [Rx [(HCb (Ext 1) 1 (Num 5), [Rx [(HTalkback (Ext 1) 2 Undefined, [])]])]]),
          (HTalkback (Ext 2) 2 Undefined, []),
          (HAttach (Ext 3), [Rx [(HCb (Ext 3) 0 (Fn (Ext 10)), [])]]),
          (HCb (Ext 3) 1 (Num 6), [])])
   \<and> share_sourceTalkback \<lparr> sinks = [Ext 1], share_sourceTalkback = Fn (Ext 9) \<rparr> = Fn (Ext 9)
   \<and> share_rx (Ext 8) (Rx [(HAttach (Ext 2), []),
          (HTalkback (Ext 2) 1 Undefined,
             [Rx [(HCb (Ext 1) 1 (Num 5), [Rx [(HTalkback (Ext 1) 2 Undefined, [])]])]]),
          (HTalkback (Ext 2) 2 Undefined, []),
          (HAttach (Ext 3), [Rx [(HCb (Ext 3) 0 (Fn (Ext 10)), [])]]),
          (HCb (Ext 3) 1 (Num 6), [])])
        \<lparr> sinks = [Ext 1], share_sourceTalkback = Fn (Ext 9) \<rparr>
     = Some (\<lparr> sinks = [Ext 3], share_sourceTalkback = Fn (Ext 10) \<rparr>,
        [In (HAttach (Ext 2)), ToSink (Call (Ext 2) 0 (Fn (ShareTalkback (Ext 2)))),
         In (HTalkback (Ext 2) 1 Undefined), ToSource (Call (Ext 9) 1 Undefined),
         In (HCb (Ext 1) 1 (Num 5)), ToSink (Call (Ext 1) 1 (Num 5)),
         In (HTalkback (Ext 1) 2 Undefined), ToSink (Call (Ext 2) 1 (Num 5)),
         In (HTalkback (Ext 2) 2 Undefined), ToSource (Call (Ext 9) 2 Undefined),
         In (HAttach (Ext 3)), ToSource (Call (Ext 8) 0 (Fn (ShareCb (Ext 3)))),
         In (HCb (Ext 3) 0 (Fn (Ext 10))), ToSink (Call (Ext 3) 0 (Fn (ShareTalkback (Ext 3)))),
         In (HCb (Ext 3) 1 (Num 6)), ToSink (Call (Ext 3) 1 (Num 6))])
   \<and> ups [In (HAttach (Ext 2)), ToSink (Call (Ext 2) 0 (Fn (ShareTalkback (Ext 2)))),
         In (HTalkback (Ext 2) 1 Undefined), ToSource (Call (Ext 9) 1 Undefined),
         In (HCb (Ext 1) 1 (Num 5)), ToSink (Call (Ext 1) 1 (Num 5)),
         In (HTalkback (Ext 1) 2 Undefined), ToSink (Call (Ext 2) 1 (Num 5)),
         In (HTalkback (Ext 2) 2 Undefined), ToSource (Call (Ext 9) 2 Undefined),
         In (HAttach (Ext 3)), ToSource (Call (Ext 8) 0 (Fn (ShareCb (Ext 3)))),
         In (HCb (Ext 3) 0 (Fn (Ext 10))), ToSink (Call (Ext 3) 0 (Fn (ShareTalkback (Ext 3)))),
         In (HCb (Ext 3) 1 (Num 6)), ToSink (Call (Ext 3) 1 (Num 6))]
     = [Call (Ext 9) 1 Undefined, Call (Ext 9) 2 Undefined, Call (Ext 8) 0 (Fn (ShareCb (Ext 3)))]
   \<and> data_to (Ext 2)
        [In (HAttach (Ext 2)), ToSink (Call (Ext 2) 0 (Fn (ShareTalkback (Ext 2)))),
         In (HTalkback (Ext 2) 1 Undefined), ToSource (Call (Ext 9) 1 Undefined),
         In (HCb (Ext 1) 1 (Num 5)), ToSink (Call (Ext 1) 1 (Num 5)),
         In (HTalkback (Ext 1) 2 Undefined), ToSink (Call (Ext 2) 1 (Num 5)),
         In (HTalkback (Ext 2) 2 Undefined), ToSource (Call (Ext 9) 2 Undefined),
         In (HAttach (Ext 3)), ToSource (Call (Ext 8) 0 (Fn (ShareCb (Ext 3)))),
         In (HCb (Ext 3) 0 (Fn (Ext 10))), ToSink (Call (Ext 3) 0 (Fn (ShareTalkback (Ext 3)))),
         In (HCb (Ext 3) 1 (Num 6)), ToSink (Call (Ext 3) 1 (Num 6))]
     = [Num 5]"
proof -
  let ?r = "Rx [(HAttach (Ext 2), []),
          (HTalkback (Ext 2) 1 Undefined,
             [Rx [(HCb (Ext 1) 1 (Num 5), [Rx [(HTalkback (Ext 1) 2 Undefined, [])]])]]),
          (HTalkback (Ext 2) 2 Undefined, []),
          (HAttach (Ext 3), [Rx [(HCb (Ext 3) 0 (Fn (Ext 10)), [])]]),
          (HCb (Ext 3) 1 (Num 6), [])]"
  let ?s = "\<lparr> sinks = [Ext 1], share_sourceTalkback = Fn (Ext 9) \<rparr>"
  let ?L = "[In (HAttach (Ext 2)), ToSink (Call (Ext 2) 0 (Fn (ShareTalkback (Ext 2)))),
         In (HTalkback (Ext 2) 1 Undefined), ToSource (Call (Ext 9) 1 Undefined),
         In (HCb (Ext 1) 1 (Num 5)), ToSink (Call (Ext 1) 1 (Num 5)),
         In (HTalkback (Ext 1) 2 Undefined), ToSink (Call (Ext 2) 1 (Num 5)),
         In (HTalkback (Ext 2) 2 Undefined), ToSource (Call (Ext 9) 2 Undefined),
         In (HAttach (Ext 3)), ToSource (Call (Ext 8) 0 (Fn (ShareCb (Ext 3)))),
         In (HCb (Ext 3) 0 (Fn (Ext 10))), ToSink (Call (Ext 3) 0 (Fn (ShareTalkback (Ext 3)))),
         In (HCb (Ext 3) 1 (Num 6)), ToSink (Call (Ext 3) 1 (Num 6))]"
  have a: "live_rx ?r" by simp
  have b: "calm_rx False ?r" by simp
  have c: "share_sourceTalkback ?s = Fn (Ext 9)" by simp
  have run: "share_rx (Ext 8) ?r ?s
      = Some (\<lparr> sinks = [Ext 3], share_sourceTalkback = Fn (Ext 10) \<rparr>, ?L)"
    by (simp add: shared_def share_talkback_def share_cb_def share_cb_end_def Let_def)
  from share_live [of "Ext 8" "Ext 1" "Ext 9" ?r ?s] a c obtain s' l where
    r1: "share_rx (Ext 8) ?r ?s = Some (s', l)"
    and u: "ups l = ups (share_expected (Ext 8) (sinks ?s) (Fn (Ext 9)) (ins l))"
    and d: "calm_rx False ?r \<longrightarrow>
         (\<forall>x. data_to x l = data_to x (share_expected (Ext 8) (sinks ?s) (Fn (Ext 9)) (ins l)))"
    by blast
  from r1 run have eq: "l = ?L" by simp
  from d b have "data_to (Ext 2) l = data_to (Ext 2) (share_expected (Ext 8) (sinks ?s) (Fn (Ext 9)) (ins l))"
    by blast
  then have d1: "data_to (Ext 2) ?L
      = data_to (Ext 2) (share_expected (Ext 8) (sinks ?s) (Fn (Ext 9)) (ins ?L))"
    unfolding eq .
  have d2: "data_to (Ext 2) (share_expected (Ext 8) (sinks ?s) (Fn (Ext 9)) (ins ?L)) = [Num 5]"
    by simp
  from d1 d2 have dd: "data_to (Ext 2) ?L = [Num 5]" by (rule trans)
  from u have u1: "ups ?L = ups (share_expected (Ext 8) (sinks ?s) (Fn (Ext 9)) (ins ?L))"
    unfolding eq .
  have u2: "ups (share_expected (Ext 8) (sinks ?s) (Fn (Ext 9)) (ins ?L))
      = [Call (Ext 9) 1 Undefined, Call (Ext 9) 2 Undefined, Call (Ext 8) 0 (Fn (ShareCb (Ext 3)))]"
    by simp
  from u1 u2 have uu: "ups ?L
      = [Call (Ext 9) 1 Undefined, Call (Ext 9) 2 Undefined, Call (Ext 8) 0 (Fn (ShareCb (Ext 3)))]"
    by (rule trans)
  from a b c run uu dd show ?thesis by blast
qed


text \<open>
  When the source ends, END goes to every sink attached and the list is emptied after
  the calls; the sink that attaches next starts the source again.
\<close>

lemma share_source_end:
  "share_rx source (Rx [(HCb k 2 d, []), (HAttach k', [])])
     \<lparr> sinks = [x, y], share_sourceTalkback = tb \<rparr>
   = Some (\<lparr> sinks = [k'], share_sourceTalkback = tb \<rparr>,
           [In (HCb k 2 d), ToSink (Call x 2 d), ToSink (Call y 2 d),
            In (HAttach k'), ToSource (Call source 0 (Fn (ShareCb k')))])"
  by (simp add: share_cb_def share_cb_end_def shared_def Let_def)

subsection \<open>makeSubject: dispatch over the snapshot with a re-check\<close>






subsection \<open>forEach over fromIter\<close>

lemma forEach_data:
  assumes "fe_talkback w = Fn FromIterTalkback" "inloop w" "\<not> completed w"
  shows "exec (Suc (Suc m)) ForEachCb [Num 1, x] w
         = Some (w\<lparr> trace := trace w @ item_calls x, got1 := True \<rparr>)"
  using assms by (simp add: logged_def nth_arg_def callv_def item_calls_def Let_def)

lemma forEach_end:
  "exec (Suc m) ForEachCb [Num 2] w = Some (w\<lparr> trace := trace w @ [(ForEachCb, [Num 2])] \<rparr>)"
  by (simp add: logged_def nth_arg_def Let_def)

lemma while_all:
  "got1 w \<Longrightarrow> \<not> completed w \<Longrightarrow> inloop w \<Longrightarrow> iterator w = xs \<Longrightarrow> fi_sink w = ForEachCb
   \<Longrightarrow> fe_talkback w = Fn FromIterTalkback
   \<Longrightarrow> exec (Suc (Suc (length xs + k))) FromIterWhile [] w
       = Some (w\<lparr> trace := trace w @ concat (map item_calls xs) @ [(ForEachCb, [Num 2])],
                  iterator := [], got1 := False, res := Some (True, Undefined) \<rparr>)"
proof (induction xs arbitrary: w)
  case Nil
  then show ?case by (simp add: logged_def nth_arg_def Let_def)
next
  case (Cons x xs)
  let ?w1 = "w\<lparr> got1 := False, res := Some (False, x), iterator := xs \<rparr>"
  let ?w2 = "?w1\<lparr> trace := trace ?w1 @ item_calls x, got1 := True \<rparr>"
  have step: "exec (Suc (Suc (length xs + k))) ForEachCb [Num 1, x] ?w1 = Some ?w2"
    using Cons.prems by (intro forEach_data) simp_all
  have rest: "exec (Suc (Suc (length xs + k))) FromIterWhile [] ?w2
       = Some (?w2\<lparr> trace := trace ?w2 @ concat (map item_calls xs) @ [(ForEachCb, [Num 2])],
                  iterator := [], got1 := False, res := Some (True, Undefined) \<rparr>)"
    using Cons.prems by (intro Cons.IH) simp_all
  have "exec (Suc (Suc (Suc (length xs + k)))) FromIterWhile [] w
       = exec (Suc (Suc (length xs + k))) FromIterWhile [] ?w2"
    using Cons.prems step by (simp add: Let_def)
  with rest show ?case by simp
qed

lemma received_operation:
  "map snd (filter (\<lambda>c. fst c = Operation) (concat (map item_calls S))) = map (\<lambda>x. [x]) S"
  by (induction S) (simp_all add: item_calls_def)

lemma received_sink:
  "map snd (filter (\<lambda>c. fst c = ForEachCb) (concat (map item_calls S))) = map (\<lambda>x. [Num 1, x]) S"
  by (induction S) (simp_all add: item_calls_def)

lemma forEach_fromIter_run:
  "forEach (length S + 6 + k) FromIterSource (world0 S m src)
   = Some ((world0 S m src)\<lparr> trace := fe_trace S, fe_talkback := Fn FromIterTalkback,
        fi_sink := ForEachCb, iterator := [], inloop := False, got1 := False,
        completed := False, res := Some (True, Undefined) \<rparr>)"
proof -
  let ?init = "world0 S m src"
  let ?w = "?init\<lparr> trace := [(FromIterSource, [Num 0, Fn ForEachCb]),
        (ForEachCb, [Num 0, Fn FromIterTalkback]), (FromIterTalkback, [Num 1])],
      fe_talkback := Fn FromIterTalkback, fi_sink := ForEachCb, iterator := S,
      inloop := True, got1 := True, completed := False, res := None \<rparr>"
  have fuel: "length S + 6 + k = Suc (Suc (Suc (Suc (Suc (Suc (length S + k))))))" by simp
  have loop: "exec (Suc (Suc (length S + k))) FromIterWhile [] ?w
       = Some (?w\<lparr> trace := trace ?w @ concat (map item_calls S) @ [(ForEachCb, [Num 2])],
                  iterator := [], got1 := False, res := Some (True, Undefined) \<rparr>)"
    by (rule while_all) (simp_all add: world0_def)
  have "forEach (length S + 6 + k) FromIterSource ?init
      = (case exec (Suc (Suc (length S + k))) FromIterWhile [] ?w of
           None \<Rightarrow> None | Some w1 \<Rightarrow> Some (w1\<lparr> inloop := False \<rparr>))"
    unfolding fuel forEach_def
    by (simp add: logged_def nth_arg_def callv_def res_done_def Let_def world0_def
        del: exec.simps(7))
  also have "\<dots> = Some ((world0 S m src)\<lparr> trace := fe_trace S, fe_talkback := Fn FromIterTalkback,
        fi_sink := ForEachCb, iterator := [], inloop := False, got1 := False,
        completed := False, res := Some (True, Undefined) \<rparr>)"
    unfolding loop by (simp add: fe_trace_def world0_def)
  finally show ?thesis .
qed

text \<open>
  C9: for every list S and every bound of at least \<open>length S + 6\<close> nested calls,
  forEach over fromIter(S) runs to its end; the calls are START, the first pull, then
  for each element of S in order its delivery, the call of the user's callback on it
  and the next pull, then one END. So the callback is called exactly once per element,
  in the order of S, and the sink receives a single END, last.
\<close>

theorem forEach_fromIter:
  "\<exists>w. forEach (length S + 6 + k) FromIterSource (world0 S m src) = Some w
     \<and> trace w = fe_trace S
     \<and> received Operation w = map (\<lambda>x. [x]) S
     \<and> received ForEachCb w = [Num 0, Fn FromIterTalkback] # map (\<lambda>x. [Num 1, x]) S @ [[Num 2]]"
  unfolding forEach_fromIter_run
  by (simp add: received_def fe_trace_def received_operation received_sink)

subsection \<open>take over a source that answers a pull at once\<close>

text \<open>
  C5: take(2) over the counter, drained by forEach. The counter answers each pull
  inside the pull, so the second value arrives while the callback of take is still
  delivering the first. The inner activation reaches the limit, sends END to the sink
  and END to the source; when the outer activation resumes after \<open>sink(t, d)\<close> it
  finds \<open>taken === max\<close> as well and sends both again: the sink receives two ENDs
  and the talkback of the source is called with END twice.
\<close>

theorem take_reentrant_source:
  "map_option (received ForEachCb) (forEach 20 TakeSource (world0 [] 2 CounterSource))
     = Some [[Num 0, Fn TakeTalkback], [Num 1, Num 0], [Num 1, Num 1], [Num 2], [Num 2]]
   \<and> map_option (received CounterTalkback) (forEach 20 TakeSource (world0 [] 2 CounterSource))
     = Some [[Num 1, Undefined], [Num 1, Undefined], [Num 2], [Num 2]]"
  by code_simp
end
